theory Spec2Isabelle
  imports Complex_Main "HOL-Library.Sublist" "HOL-Library.Char_ord" "HOL-Library.List_Lexorder"
begin

section \<open>JavaScript dates as time values\<close>

text \<open>
  A \<^verbatim>\<open>Date\<close> is its time value: the number of milliseconds since
  1970-01-01T00:00:00Z, an integer. The calendar functions follow the definitions of the
  ECMAScript language specification (Day, DayFromYear, YearFromTime, MonthFromTime,
  DateFromTime, WeekDay, MakeDay, MakeDate). Invalid dates (NaN) are the \<open>None\<close> of
  the parser below; the clipping of time values beyond 8.64e15 ms is not modelled.
  All quantities stay far below \<open>2^53\<close>, where the arithmetic of JavaScript numbers on
  integers is exact.
\<close>

definition msPerDay :: int where
  "msPerDay = 24 * 60 * 60 * 1000"

definition Day :: "int \<Rightarrow> int" where
  "Day t = t div msPerDay"

definition TimeWithinDay :: "int \<Rightarrow> int" where
  "TimeWithinDay t = t mod msPerDay"

definition DaysInYear :: "int \<Rightarrow> int" where
  "DaysInYear y =
     (if y mod 4 \<noteq> 0 then 365
      else if y mod 100 \<noteq> 0 then 366
      else if y mod 400 \<noteq> 0 then 365
      else 366)"

definition DayFromYear :: "int \<Rightarrow> int" where
  "DayFromYear y =
     365 * (y - 1970) + (y - 1969) div 4 - (y - 1901) div 100 + (y - 1601) div 400"

text \<open>
  ECMAScript defines YearFromTime as the largest year whose first day is not after the
  given day. The closed form counts whole cycles of 400, 100, 4 and 1 years from
  1601-01-01 (day number \<open>-134774\<close>); lemma \<open>YearFromDay_bounds\<close> below shows that it
  is the year of the specification.
\<close>

definition YearFromDay :: "int \<Rightarrow> int" where
  "YearFromDay d =
     (let n = d + 134774;
          n400 = n div 146097;
          r = n mod 146097;
          n100 = min 3 (r div 36524);
          r2 = r - n100 * 36524;
          n4 = r2 div 1461;
          r3 = r2 mod 1461;
          n1 = min 3 (r3 div 365)
      in 1601 + 400 * n400 + 100 * n100 + 4 * n4 + n1)"

definition DayWithinYear :: "int \<Rightarrow> int" where
  "DayWithinYear d = d - DayFromYear (YearFromDay d)"

definition InLeapYear :: "int \<Rightarrow> bool" where
  "InLeapYear d = (DaysInYear (YearFromDay d) = 366)"

text \<open>The day within the year on which month \<open>m\<close> (0 = January) begins.\<close>

definition MonthStart :: "bool \<Rightarrow> int \<Rightarrow> int" where
  "MonthStart leap m =
     (let l = (if leap then 1 else 0) in
      if m = 0 then 0
      else if m = 1 then 31
      else if m = 2 then 59 + l
      else if m = 3 then 90 + l
      else if m = 4 then 120 + l
      else if m = 5 then 151 + l
      else if m = 6 then 181 + l
      else if m = 7 then 212 + l
      else if m = 8 then 243 + l
      else if m = 9 then 273 + l
      else if m = 10 then 304 + l
      else 334 + l)"

definition MonthFromDay :: "int \<Rightarrow> int" where
  "MonthFromDay d =
     (let w = DayWithinYear d; l = (if InLeapYear d then 1 else 0) in
      if w < 31 then 0
      else if w < 59 + l then 1
      else if w < 90 + l then 2
      else if w < 120 + l then 3
      else if w < 151 + l then 4
      else if w < 181 + l then 5
      else if w < 212 + l then 6
      else if w < 243 + l then 7
      else if w < 273 + l then 8
      else if w < 304 + l then 9
      else if w < 334 + l then 10
      else 11)"

definition DateFromDay :: "int \<Rightarrow> int" where
  "DateFromDay d = DayWithinYear d - MonthStart (InLeapYear d) (MonthFromDay d) + 1"

definition WeekDay :: "int \<Rightarrow> int" where
  "WeekDay d = (d + 4) mod 7"

text \<open>
  MakeDay: the month may lie outside 0..11 and the date outside the month; both carry
  over, which is what \<^verbatim>\<open>Date.UTC(y, m, d - dayNum)\<close> relies on.
\<close>

definition MakeDay :: "int \<Rightarrow> int \<Rightarrow> int \<Rightarrow> int" where
  "MakeDay y m dt =
     (let ym = y + m div 12; mn = m mod 12
      in DayFromYear ym + MonthStart (DaysInYear ym = 366) mn + dt - 1)"

definition MakeDate :: "int \<Rightarrow> int \<Rightarrow> int" where
  "MakeDate day time = day * msPerDay + time"

definition getUTCFullYear :: "int \<Rightarrow> int" where
  "getUTCFullYear t = YearFromDay (Day t)"

definition getUTCMonth :: "int \<Rightarrow> int" where
  "getUTCMonth t = MonthFromDay (Day t)"

definition getUTCDate :: "int \<Rightarrow> int" where
  "getUTCDate t = DateFromDay (Day t)"

definition getUTCDay :: "int \<Rightarrow> int" where
  "getUTCDay t = WeekDay (Day t)"

text \<open>
  \<^verbatim>\<open>Date.UTC(year, month, date)\<close>: a year from 0 to 99 stands for 1900 + year.
\<close>

definition Date_UTC :: "int \<Rightarrow> int \<Rightarrow> int \<Rightarrow> int" where
  "Date_UTC y m dt =
     MakeDate (MakeDay (if 0 \<le> y \<and> y \<le> 99 then 1900 + y else y) m dt) 0"

definition setUTCDate :: "int \<Rightarrow> int \<Rightarrow> int" where
  "setUTCDate t dt =
     MakeDate (MakeDay (getUTCFullYear t) (getUTCMonth t) dt) (TimeWithinDay t)"

subsection \<open>Numbers and dates as strings\<close>

definition digitChar :: "nat \<Rightarrow> char" where
  "digitChar n = ''0123456789'' ! (n mod 10)"

fun decimal :: "nat \<Rightarrow> string" where
  "decimal n = (if n < 10 then [digitChar n] else decimal (n div 10) @ [digitChar n])"

declare decimal.simps [simp del]

text \<open>\<^verbatim>\<open>String(n)\<close> of an integer.\<close>

definition String_of :: "int \<Rightarrow> string" where
  "String_of n = (if n < 0 then CHR ''-'' # decimal (nat (- n)) else decimal (nat n))"

definition padStart :: "nat \<Rightarrow> char \<Rightarrow> string \<Rightarrow> string" where
  "padStart len c s = replicate (len - length s) c @ s"

text \<open>
  \<^verbatim>\<open>toISOString\<close>: \<^verbatim>\<open>YYYY-MM-DDTHH:mm:ss.sssZ\<close>, with a sign and six digits
  for a year outside 0..9999.
\<close>

definition isoYear :: "int \<Rightarrow> string" where
  "isoYear y =
     (if 0 \<le> y \<and> y \<le> 9999 then padStart 4 (CHR ''0'') (decimal (nat y))
      else (if y < 0 then CHR ''-'' else CHR ''+'') # padStart 6 (CHR ''0'') (decimal (nat \<bar>y\<bar>)))"

definition pad2 :: "int \<Rightarrow> string" where
  "pad2 n = padStart 2 (CHR ''0'') (String_of n)"

definition toISOString :: "int \<Rightarrow> string" where
  "toISOString t =
     (let s = TimeWithinDay t in
      isoYear (getUTCFullYear t) @ ''-'' @ pad2 (getUTCMonth t + 1) @ ''-'' @ pad2 (getUTCDate t)
      @ ''T'' @ pad2 (s div 3600000) @ '':'' @ pad2 (s div 60000 mod 60) @ '':''
      @ pad2 (s div 1000 mod 60) @ ''.'' @ padStart 3 (CHR ''0'') (String_of (s mod 1000)) @ ''Z'')"

section \<open>Calendar normalizer\<close>

text \<open>
  The exceptions the services throw, without their messages. \<open>DispatchRejected\<close> stands
  for the reason, whatever it is, with which the promise of a notification rejects.
\<close>

datatype error = BadRequestException | ForbiddenException | NotFoundException | DispatchRejected

text \<open>
  \<^verbatim>\<open>normalizeDay(iso)\<close> parses a string and truncates to midnight UTC. Parsing is
  the platform's: \<open>parse\<close> gives the time value of \<^verbatim>\<open>new Date(iso)\<close>, \<open>None\<close> for
  an invalid date. Most calls pass \<^verbatim>\<open>x.toISOString()\<close> of a valid date \<open>x\<close>, which
  parses back to \<open>x\<close>; \<open>normalizeDayOf\<close> is \<open>normalizeDay\<close> on such an argument.
\<close>

definition normalizeDayOf :: "int \<Rightarrow> int" where
  "normalizeDayOf t = Date_UTC (getUTCFullYear t) (getUTCMonth t) (getUTCDate t)"

definition normalizeDay :: "(string \<Rightarrow> int option) \<Rightarrow> string \<Rightarrow> error + int" where
  "normalizeDay parse str =
     (case parse str of
        None \<Rightarrow> Inl BadRequestException
      | Some t \<Rightarrow> Inr (normalizeDayOf t))"

section \<open>Bucketing engine: bucket keys\<close>

datatype period = PDay | PWeek | PMonth

definition bucketKey :: "int \<Rightarrow> period \<Rightarrow> string" where
  "bucketKey d p =
     (case p of
        PDay \<Rightarrow> take 10 (toISOString d)
      | PMonth \<Rightarrow> String_of (getUTCFullYear d) @ ''-'' @ pad2 (getUTCMonth d + 1)
      | PWeek \<Rightarrow>
          (let dayNum = (getUTCDay d + 6) mod 7;
               weekStart = Date_UTC (getUTCFullYear d) (getUTCMonth d) (getUTCDate d - dayNum);
               firstThursday = Date_UTC (getUTCFullYear weekStart) 0 4;
               weekNumber = (weekStart - firstThursday) div (7 * 24 * 60 * 60 * 1000) + 1
           in String_of (getUTCFullYear weekStart) @ ''-W'' @ pad2 weekNumber))"

section \<open>Stored rows\<close>

text \<open>
  The rows of the store that the services read, with the columns they use. A table is the
  list of its rows; a query filters it. Numeric columns (\<open>value\<close>, \<open>targetValue\<close>, \<open>score\<close>)
  hold integers.
\<close>

datatype GoalTargetType = DAILY | BOOLEAN | COUNT | WEEKLY

record goal =
  g_id :: string
  g_userId :: string
  g_targetType :: GoalTargetType
  g_targetValue :: "int option"
  g_startDate :: int
  g_endDate :: "int option"

record goalCheckin =
  gc_goalId :: string
  gc_userId :: string
  gc_date :: int
  gc_done :: bool
  gc_value :: "int option"

record streakMember =
  sm_streakId :: string
  sm_userId :: string

record streakCheckin =
  sc_streakId :: string
  sc_userId :: string
  sc_date :: int
  sc_done :: bool

record metadata =
  md_label :: "string option"

record rankingEntry =
  re_period :: string
  re_userId :: string
  re_score :: int
  re_extra :: "metadata option"

record store =
  goals :: "goal list"
  goalCheckins :: "goalCheckin list"
  streakMembers :: "streakMember list"
  streakCheckins :: "streakCheckin list"

text \<open>A check-in is active when \<^verbatim>\<open>c.done || (c.value ?? 0) > 0\<close>.\<close>

definition valueOr0 :: "goalCheckin \<Rightarrow> int" where
  "valueOr0 c = (case gc_value c of None \<Rightarrow> 0 | Some v \<Rightarrow> v)"

definition isActive :: "goalCheckin \<Rightarrow> bool" where
  "isActive c = (gc_done c \<or> valueOr0 c > 0)"

section \<open>Range resolution\<close>

record rangeQuery =
  q_from :: "string option"
  q_to :: "string option"
  q_period :: "period option"

text \<open>
  \<^verbatim>\<open>q.from ? this.normalizeDay(q.from) : this.normalizeDay(dflt.toISOString())\<close>:
  an absent or empty string is falsy and takes the default.
\<close>

definition resolveEnd :: "(string \<Rightarrow> int option) \<Rightarrow> int \<Rightarrow> string option \<Rightarrow> error + int" where
  "resolveEnd parse dflt raw =
     (case raw of
        None \<Rightarrow> Inr (normalizeDayOf dflt)
      | Some str \<Rightarrow> if str = [] then Inr (normalizeDayOf dflt) else normalizeDay parse str)"

text \<open>\<open>now\<close> is the time value of \<^verbatim>\<open>new Date()\<close> at the call.\<close>

definition resolveRange ::
  "(string \<Rightarrow> int option) \<Rightarrow> int \<Rightarrow> ('a rangeQuery_scheme) \<Rightarrow> error + (int \<times> int)" where
  "resolveRange parse now q =
     (let defaultFrom = setUTCDate now (getUTCDate now - 30) in
      case resolveEnd parse defaultFrom (q_from q) of
        Inl e \<Rightarrow> Inl e
      | Inr from \<Rightarrow>
          (case resolveEnd parse now (q_to q) of
             Inl e \<Rightarrow> Inl e
           | Inr to \<Rightarrow> if from > to then Inl ForbiddenException else Inr (from, to)))"

text \<open>
  The inclusive length in days of a window of normalized days, in the words of the
  specification.
\<close>

definition daysBetweenInclusive :: "int \<Rightarrow> int \<Rightarrow> int" where
  "daysBetweenInclusive a b = Day b - Day a + 1"

section \<open>Run tracker\<close>

record runState =
  longest :: int
  current :: int
  prev :: "int option"

definition runStep :: "runState \<Rightarrow> int \<Rightarrow> runState" where
  "runStep st r =
     (let d = normalizeDayOf r;
          cur = (case prev st of
                   None \<Rightarrow> 1
                 | Some p \<Rightarrow>
                     (let diff = (of_int (d - p) :: rat) / of_int (1000 * 60 * 60 * 24)
                      in if diff = 1 then current st + 1 else 1))
      in \<lparr>longest = max (longest st) cur, current = cur, prev = Some d\<rparr>)"

definition runLoop :: "int list \<Rightarrow> runState" where
  "runLoop rows = foldl runStep \<lparr>longest = 0, current = 0, prev = None\<rparr> rows"

record memberStats =
  ms_userId :: string
  ms_current :: int
  ms_longest :: int
  ms_totalDone :: nat

text \<open>
  \<open>statsOfRows\<close> is the part of \<^verbatim>\<open>statsForMember\<close> that follows the query: the loop
  over the rows and the result built from it.
\<close>

definition statsOfRows :: "string \<Rightarrow> int list \<Rightarrow> memberStats" where
  "statsOfRows targetUser rows =
     (let st = runLoop rows
      in \<lparr>ms_userId = targetUser, ms_current = current st, ms_longest = longest st,
          ms_totalDone = length rows\<rparr>)"

definition statsForMember ::
  "('a store_scheme) \<Rightarrow> string \<Rightarrow> string \<Rightarrow> string option \<Rightarrow> error + memberStats" where
  "statsForMember db userId streakId memberUserId =
     (case find (\<lambda>m. sm_streakId m = streakId \<and> sm_userId m = userId) (streakMembers db) of
        None \<Rightarrow> Inl ForbiddenException
      | Some member \<Rightarrow>
          (let targetUser = (case memberUserId of None \<Rightarrow> userId | Some u \<Rightarrow> u);
               rows = map sc_date (sort_key sc_date
                        (filter (\<lambda>c. sc_streakId c = streakId \<and> sc_userId c = targetUser \<and> sc_done c)
                           (streakCheckins db)))
           in Inr (statsOfRows targetUser rows)))"

text \<open>
  The runs of the specification: a run is a stretch of the sequence in which every day is
  exactly one calendar day after the one before it.
\<close>

fun consecutiveDays :: "int list \<Rightarrow> bool" where
  "consecutiveDays (a # b # ds) = (b - a = msPerDay \<and> consecutiveDays (b # ds))"
| "consecutiveDays ds = True"

definition longestRun :: "int list \<Rightarrow> nat" where
  "longestRun ds = Max (set (map length (filter consecutiveDays (sublists ds))))"

definition runEndingAtLast :: "int list \<Rightarrow> nat" where
  "runEndingAtLast ds = Max (set (map length (filter consecutiveDays (suffixes ds))))"

text \<open>
  The same in terms of the set of days: \<open>daysFrom a n\<close> are the \<open>n\<close> consecutive calendar
  days that begin with \<open>a\<close>, \<open>daysUntil b n\<close> the \<open>n\<close> consecutive calendar days that end
  with \<open>b\<close>. A calendar day, as the services store it, is a midnight in a year that
  \<^verbatim>\<open>Date.UTC\<close> takes as it is.
\<close>

definition daysFrom :: "int \<Rightarrow> nat \<Rightarrow> int list" where
  "daysFrom a n = map (\<lambda>k. a + int k * msPerDay) [0..<n]"

definition daysUntil :: "int \<Rightarrow> nat \<Rightarrow> int list" where
  "daysUntil b n = map (\<lambda>k. b - int k * msPerDay) [0..<n]"

definition calendarDay :: "int \<Rightarrow> bool" where
  "calendarDay t \<longleftrightarrow>
     TimeWithinDay t = 0 \<and> \<not> (0 \<le> getUTCFullYear t \<and> getUTCFullYear t \<le> 99)"

section \<open>Goal progress\<close>

record goalProgressResult =
  gp_goalId :: string
  gp_targetType :: GoalTargetType
  gp_targetValue :: "int option"
  gp_from :: int
  gp_to :: int
  gp_totalCheckins :: nat
  gp_doneCount :: nat
  gp_valueSum :: int
  gp_completion :: "rat option"

definition getOwnedGoal :: "('a store_scheme) \<Rightarrow> string \<Rightarrow> string \<Rightarrow> error + goal" where
  "getOwnedGoal db userId goalId =
     (case find (\<lambda>g. g_id g = goalId) (goals db) of
        None \<Rightarrow> Inl NotFoundException
      | Some g \<Rightarrow> if g_userId g \<noteq> userId then Inl ForbiddenException else Inr g)"

definition MS_PER_DAY :: int where
  "MS_PER_DAY = 24 * 60 * 60 * 1000"

text \<open>
  The completion fraction is the exact quotient of two integers, which JavaScript rounds
  to the nearest double.
\<close>

definition completionOf :: "goal \<Rightarrow> int \<Rightarrow> nat \<Rightarrow> int \<Rightarrow> rat option" where
  "completionOf g to doneDays valueSum =
     (if g_targetType g = DAILY then
        (let goalStart = normalizeDayOf (g_startDate g);
             rawEnd = (case g_endDate g of None \<Rightarrow> to | Some e \<Rightarrow> e);
             goalEnd = normalizeDayOf rawEnd
         in if goalEnd \<ge> goalStart then
              (let diffMs = goalEnd - goalStart;
                   totalDays = diffMs div MS_PER_DAY + 1
               in if totalDays > 0
                  then Some (of_int (min (int doneDays) totalDays) / of_int totalDays)
                  else None)
            else None)
      else
        (case g_targetValue g of
           None \<Rightarrow> None
         | Some target \<Rightarrow>
             if target \<noteq> 0 \<and> target > 0
             then Some (min 1 (of_int valueSum / of_int target))
             else None))"

definition goalProgress ::
  "(string \<Rightarrow> int option) \<Rightarrow> int \<Rightarrow> ('a store_scheme) \<Rightarrow> string \<Rightarrow> string \<Rightarrow> ('b rangeQuery_scheme)
     \<Rightarrow> error + goalProgressResult" where
  "goalProgress parse now db userId goalId q =
     (case getOwnedGoal db userId goalId of
        Inl e \<Rightarrow> Inl e
      | Inr g \<Rightarrow>
          (case resolveRange parse now q of
             Inl e \<Rightarrow> Inl e
           | Inr (from, to) \<Rightarrow>
               (let checkins = filter (\<lambda>c. gc_goalId c = goalId \<and> gc_userId c = userId
                                           \<and> from \<le> gc_date c \<and> gc_date c \<le> to) (goalCheckins db);
                    doneCheckins = filter isActive checkins;
                    valueSum = foldl (\<lambda>acc c. acc + valueOr0 c) 0 checkins;
                    doneDays = length (remdups
                                 (map (\<lambda>c. toISOString (normalizeDayOf (gc_date c))) doneCheckins))
                in Inr \<lparr>gp_goalId = goalId, gp_targetType = g_targetType g,
                        gp_targetValue = g_targetValue g, gp_from = from, gp_to = to,
                        gp_totalCheckins = length checkins, gp_doneCount = length doneCheckins,
                        gp_valueSum = valueSum,
                        gp_completion = completionOf g to doneDays valueSum\<rparr>)))"

section \<open>Activity metrics\<close>

record bucket =
  b_key :: string
  b_goalCheckins :: int
  b_streakCheckins :: int
  b_total :: int

text \<open>
  The \<^verbatim>\<open>Map\<close> of buckets keeps its entries in insertion order: a list of pairs with
  distinct keys. \<open>upsertBucket\<close> adds an empty bucket for a key not yet there; the loop
  then updates the bucket under that key in place.
\<close>

definition upsertBucket :: "string \<Rightarrow> (string \<times> bucket) list \<Rightarrow> (string \<times> bucket) list" where
  "upsertBucket key buckets =
     (case map_of buckets key of
        None \<Rightarrow> buckets @ [(key, \<lparr>b_key = key, b_goalCheckins = 0, b_streakCheckins = 0, b_total = 0\<rparr>)]
      | Some b \<Rightarrow> buckets)"

definition modifyBucket ::
  "string \<Rightarrow> (bucket \<Rightarrow> bucket) \<Rightarrow> (string \<times> bucket) list \<Rightarrow> (string \<times> bucket) list" where
  "modifyBucket key f buckets = map (\<lambda>(k, b). if k = key then (k, f b) else (k, b)) buckets"

definition goalStep :: "period \<Rightarrow> (string \<times> bucket) list \<Rightarrow> goalCheckin \<Rightarrow> (string \<times> bucket) list" where
  "goalStep p buckets c =
     (let day = normalizeDayOf (gc_date c);
          key = bucketKey day p
      in modifyBucket key
           (\<lambda>b. let g = b_goalCheckins b + (if gc_done c \<or> valueOr0 c > 0 then 1 else 0)
                in b\<lparr>b_goalCheckins := g, b_total := g + b_streakCheckins b\<rparr>)
           (upsertBucket key buckets))"

definition streakStep :: "period \<Rightarrow> (string \<times> bucket) list \<Rightarrow> streakCheckin \<Rightarrow> (string \<times> bucket) list" where
  "streakStep p buckets c =
     (let day = normalizeDayOf (sc_date c);
          key = bucketKey day p
      in modifyBucket key
           (\<lambda>b. let s = b_streakCheckins b + 1
                in b\<lparr>b_streakCheckins := s, b_total := b_goalCheckins b + s\<rparr>)
           (upsertBucket key buckets))"

text \<open>
  \<^verbatim>\<open>Array.prototype.sort\<close> with a comparator is a stable sort: an element goes before
  the first later element that the comparator does not put before it.
\<close>

fun insertBy :: "('a \<Rightarrow> 'a \<Rightarrow> int) \<Rightarrow> 'a \<Rightarrow> 'a list \<Rightarrow> 'a list" where
  "insertBy cmp x [] = [x]"
| "insertBy cmp x (y # ys) = (if cmp x y \<le> 0 then x # y # ys else y # insertBy cmp x ys)"

definition sortBy :: "('a \<Rightarrow> 'a \<Rightarrow> int) \<Rightarrow> 'a list \<Rightarrow> 'a list" where
  "sortBy cmp xs = foldr (insertBy cmp) xs []"

record activityMetricsResult =
  am_period :: period
  am_from :: int
  am_to :: int
  am_buckets :: "bucket list"

text \<open>
  \<open>localeCompare\<close> is the platform's string comparison (negative, zero or positive).
\<close>

definition activityMetrics ::
  "(string \<Rightarrow> int option) \<Rightarrow> int \<Rightarrow> (string \<Rightarrow> string \<Rightarrow> int) \<Rightarrow> ('a store_scheme) \<Rightarrow> string
     \<Rightarrow> ('b rangeQuery_scheme) \<Rightarrow> error + activityMetricsResult" where
  "activityMetrics parse now localeCompare db userId q =
     (case resolveRange parse now q of
        Inl e \<Rightarrow> Inl e
      | Inr (from, to) \<Rightarrow>
          (let p = (case q_period q of None \<Rightarrow> PDay | Some v \<Rightarrow> v);
               goalRows = filter (\<lambda>c. gc_userId c = userId \<and> from \<le> gc_date c \<and> gc_date c \<le> to)
                            (goalCheckins db);
               streakRows = filter (\<lambda>c. sc_userId c = userId \<and> from \<le> sc_date c \<and> sc_date c \<le> to
                                          \<and> sc_done c) (streakCheckins db);
               buckets = foldl (streakStep p) (foldl (goalStep p) [] goalRows) streakRows;
               items = sortBy (\<lambda>a b. localeCompare (b_key a) (b_key b)) (map snd buckets)
           in Inr \<lparr>am_period = p, am_from = from, am_to = to, am_buckets = items\<rparr>))"

section \<open>Rankings\<close>

record computeRankingDto =
  dto_period :: string
  dto_from :: int
  dto_to :: int
  dto_metadata :: "metadata option"

datatype notificationType = RANKING_TOP3 | RANKING_RESULT

record notification =
  n_type :: notificationType
  n_period :: string
  n_rank :: nat
  n_score :: int
  n_totalUsers :: nat
  n_label :: "string option"

record rankedResult =
  rr_period :: string
  rr_from :: int
  rr_to :: int
  rr_totalUsers :: nat
  rr_rankings :: "rankingEntry list"

text \<open>
  \<open>NoEntries\<close> is the early return \<^verbatim>\<open>{ period, entries: [] }\<close>.
\<close>

datatype computeResult = NoEntries string | Ranked rankedResult

text \<open>
  What the computation writes: the leaderboard table and the notification dispatches
  started, in the order of the calls.
\<close>

record world =
  rankingEntries :: "rankingEntry list"
  dispatched :: "(string \<times> notification) list"

text \<open>
  \<^verbatim>\<open>toInclusive.setHours(23, 59, 59, 999)\<close> works in local time; \<open>tza\<close> is the offset
  of the local time zone in milliseconds (taken as fixed).
\<close>

definition setHoursEndOfDay :: "int \<Rightarrow> int \<Rightarrow> int" where
  "setHoursEndOfDay tza t =
     MakeDate (Day (t + tza)) (((23 * 60 + 59) * 60 + 59) * 1000 + 999) - tza"

text \<open>
  \<^verbatim>\<open>groupBy({ by: ['userId'], _count: { _all: true } })\<close> over the user ids of the
  matching rows: one row per user with the number of matches. The store fixes no order
  of the groups; the model lists them by last occurrence.
\<close>

definition groupCount :: "string list \<Rightarrow> (string \<times> int) list" where
  "groupCount us = map (\<lambda>u. (u, int (count_list us u))) (remdups us)"

definition mapSet :: "string \<Rightarrow> int \<Rightarrow> (string \<times> int) list \<Rightarrow> (string \<times> int) list" where
  "mapSet k v m =
     (case map_of m k of
        None \<Rightarrow> m @ [(k, v)]
      | Some old \<Rightarrow> map (\<lambda>(k', v'). if k' = k then (k', v) else (k', v')) m)"

definition addScore :: "(string \<times> int) list \<Rightarrow> string \<times> int \<Rightarrow> (string \<times> int) list" where
  "addScore m row =
     (let prev = (case map_of m (fst row) of None \<Rightarrow> 0 | Some v \<Rightarrow> v)
      in mapSet (fst row) (prev + snd row) m)"

definition scoresMapOf :: "('a store_scheme) \<Rightarrow> int \<Rightarrow> int \<Rightarrow> (string \<times> int) list" where
  "scoresMapOf db from toInclusive =
     (let goalAgg = groupCount (map gc_userId
            (filter (\<lambda>c. from \<le> gc_date c \<and> gc_date c \<le> toInclusive
                         \<and> (gc_done c \<or> (case gc_value c of None \<Rightarrow> False | Some v \<Rightarrow> v > 0)))
               (goalCheckins db)));
          streakAgg = groupCount (map sc_userId
            (filter (\<lambda>c. from \<le> sc_date c \<and> sc_date c \<le> toInclusive \<and> sc_done c)
               (streakCheckins db)))
      in foldl addScore (foldl addScore [] goalAgg) streakAgg)"

definition entriesDataOf :: "('a store_scheme) \<Rightarrow> int \<Rightarrow> ('b computeRankingDto_scheme) \<Rightarrow> rankingEntry list" where
  "entriesDataOf db tza dto =
     map (\<lambda>(userId, score). \<lparr>re_period = dto_period dto, re_userId = userId, re_score = score,
                              re_extra = dto_metadata dto\<rparr>)
       (filter (\<lambda>(userId, score). score > 0)
          (scoresMapOf db (dto_from dto) (setHoursEndOfDay tza (dto_to dto))))"

definition notificationFor ::
  "('b computeRankingDto_scheme) \<Rightarrow> nat \<Rightarrow> nat \<Rightarrow> rankingEntry \<Rightarrow> string \<times> notification" where
  "notificationFor dto totalUsers index entry =
     (let rank = index + 1;
          isTop3 = (rank \<le> 3)
      in (re_userId entry,
          \<lparr>n_type = (if isTop3 then RANKING_TOP3 else RANKING_RESULT),
           n_period = dto_period dto, n_rank = rank, n_score = re_score entry,
           n_totalUsers = totalUsers,
           n_label = (case dto_metadata dto of None \<Rightarrow> None | Some m \<Rightarrow> md_label m)\<rparr>))"

text \<open>
  \<open>createForUser u n\<close> tells whether the promise of that dispatch resolves. Every call of
  \<^verbatim>\<open>rankings.map\<close> is made before \<^verbatim>\<open>Promise.all\<close> is awaited; the await throws as
  soon as one promise rejects, and nothing in \<^verbatim>\<open>compute\<close> catches it. The read-back
  \<^verbatim>\<open>orderBy: { score: 'desc' }\<close> is a stable sort of the period's rows; the joined
  user columns of a row are left out.
\<close>

definition compute ::
  "int \<Rightarrow> (string \<Rightarrow> notification \<Rightarrow> bool) \<Rightarrow> ('a store_scheme) \<Rightarrow> ('b computeRankingDto_scheme) \<Rightarrow> world
     \<Rightarrow> (error + computeResult) \<times> world" where
  "compute tza createForUser db dto w =
     (let toInclusive = setHoursEndOfDay tza (dto_to dto);
          deleted = filter (\<lambda>e. re_period e \<noteq> dto_period dto) (rankingEntries w);
          entriesData = entriesDataOf db tza dto
      in if length entriesData = 0
         then (Inr (NoEntries (dto_period dto)), w\<lparr>rankingEntries := deleted\<rparr>)
         else
           (let created = deleted @ entriesData;
                rankings = sort_key (\<lambda>e. - re_score e)
                             (filter (\<lambda>e. re_period e = dto_period dto) created);
                totalUsers = length rankings;
                calls = map (\<lambda>(index, entry). notificationFor dto totalUsers index entry)
                          (enumerate 0 rankings);
                w' = \<lparr>rankingEntries = created, dispatched = dispatched w @ calls\<rparr>
            in if list_all (\<lambda>(userId, n). createForUser userId n) calls
               then (Inr (Ranked \<lparr>rr_period = dto_period dto, rr_from = dto_from dto,
                                   rr_to = toInclusive, rr_totalUsers = totalUsers,
                                   rr_rankings = rankings\<rparr>), w')
               else (Inl DispatchRejected, w')))"

text \<open>
  The leaderboard and the notifications of a computation, as functions of its input: the
  entries computed, read back in descending order of score, and one notification per
  entry by position.
\<close>

definition rankingsOf :: "('a store_scheme) \<Rightarrow> int \<Rightarrow> ('b computeRankingDto_scheme) \<Rightarrow> rankingEntry list" where
  "rankingsOf db tza dto = sort_key (\<lambda>e. - re_score e) (entriesDataOf db tza dto)"

definition dispatchesOf ::
  "('a store_scheme) \<Rightarrow> int \<Rightarrow> ('b computeRankingDto_scheme) \<Rightarrow> (string \<times> notification) list" where
  "dispatchesOf db tza dto =
     map (\<lambda>(index, entry). notificationFor dto (length (rankingsOf db tza dto)) index entry)
       (enumerate 0 (rankingsOf db tza dto))"

subsection \<open>Reading a decimal string back\<close>

text \<open>The value of a string of decimal digits: the inverse of \<open>decimal\<close>, used to show that dates print injectively.\<close>

definition digitVal :: "char \<Rightarrow> nat" where
  "digitVal c = of_char c - 48"

definition digitsVal :: "string \<Rightarrow> nat" where
  "digitsVal s = foldl (\<lambda>a c. 10 * a + digitVal c) 0 s"

subsection \<open>The lengths of the runs of a sequence\<close>

text \<open>The sets over which \<open>runEndingAtLast\<close> and \<open>longestRun\<close> take their maximum.\<close>

definition suffixRuns :: "int list \<Rightarrow> nat set" where
  "suffixRuns ds = length ` {s. suffix s ds \<and> consecutiveDays s}"

definition sublistRuns :: "int list \<Rightarrow> nat set" where
  "sublistRuns ds = length ` {s. sublist s ds \<and> consecutiveDays s}"

subsection \<open>Buckets and comparators\<close>

text \<open>
  The invariant of a bucket, and what \<^verbatim>\<open>Array.prototype.sort\<close> asks of a comparator
  for its result to be determined: any two elements are comparable, transitively.
\<close>

definition okBucket :: "bucket \<Rightarrow> bool" where
  "okBucket b \<longleftrightarrow>
     b_total b = b_goalCheckins b + b_streakCheckins b
     \<and> 0 \<le> b_goalCheckins b \<and> 0 \<le> b_streakCheckins b \<and> 0 \<le> b_total b"

definition consistentComparator :: "('a \<Rightarrow> 'a \<Rightarrow> int) \<Rightarrow> bool" where
  "consistentComparator cmp \<longleftrightarrow>
     (\<forall>a b. cmp a b \<le> 0 \<or> cmp b a \<le> 0)
     \<and> (\<forall>a b c. cmp a b \<le> 0 \<longrightarrow> cmp b c \<le> 0 \<longrightarrow> cmp a c \<le> 0)"

section \<open>Example data\<close>

text \<open>
  A small store used to run the services on concrete input: user \<open>u1\<close> with a DAILY goal
  from 2024-01-01 to 2024-01-10 (seven active days and one inactive check-in), a COUNT
  goal with target 20 and a BOOLEAN goal that carries a target value. The parser knows
  two date strings; the clock reads 2024-03-15T12:34:56Z.
\<close>

definition exampleGoals :: "goal list" where
  "exampleGoals =
     [\<lparr>g_id = ''daily'', g_userId = ''u1'', g_targetType = DAILY, g_targetValue = None,
        g_startDate = 1704067200000, g_endDate = Some 1704844800000\<rparr>,
      \<lparr>g_id = ''count'', g_userId = ''u1'', g_targetType = COUNT, g_targetValue = Some 20,
        g_startDate = 1704067200000, g_endDate = None\<rparr>,
      \<lparr>g_id = ''bool'', g_userId = ''u1'', g_targetType = BOOLEAN, g_targetValue = Some 5,
        g_startDate = 1704067200000, g_endDate = None\<rparr>]"

definition dailyCheckin :: "int \<Rightarrow> bool \<Rightarrow> goalCheckin" where
  "dailyCheckin d done =
     \<lparr>gc_goalId = ''daily'', gc_userId = ''u1'', gc_date = d, gc_done = done, gc_value = None\<rparr>"

definition exampleGoalCheckins :: "goalCheckin list" where
  "exampleGoalCheckins =
     [dailyCheckin 1704067200000 True, dailyCheckin 1704153600000 True,
      dailyCheckin 1704240000000 True, dailyCheckin 1704326400000 True,
      dailyCheckin 1704412800000 True, dailyCheckin 1704499200000 True,
      dailyCheckin 1704585600000 True, dailyCheckin 1704672000000 False,
      \<lparr>gc_goalId = ''count'', gc_userId = ''u1'', gc_date = 1704067200000, gc_done = False,
        gc_value = Some 12\<rparr>,
      \<lparr>gc_goalId = ''count'', gc_userId = ''u1'', gc_date = 1704153600000, gc_done = False,
        gc_value = Some 13\<rparr>]"

definition exampleStore :: store where
  "exampleStore = \<lparr>goals = exampleGoals, goalCheckins = exampleGoalCheckins,
                    streakMembers = [], streakCheckins = []\<rparr>"

definition exampleParse :: "string \<Rightarrow> int option" where
  "exampleParse s =
     (if s = ''2024-01-01'' then Some 1704067200000
      else if s = ''2024-01-31'' then Some 1706659200000
      else None)"

definition exampleNow :: int where
  "exampleNow = 1710506096000"

definition january :: rangeQuery where
  "january = \<lparr>q_from = Some ''2024-01-01'', q_to = Some ''2024-01-31'', q_period = None\<rparr>"

definition noRange :: rangeQuery where
  "noRange = \<lparr>q_from = None, q_to = None, q_period = None\<rparr>"

text \<open>Active days D1, D2, D3, D5: the first, second, third and fifth of January 2024.\<close>

definition exampleRows :: "int list" where
  "exampleRows = [Date_UTC 2024 0 1, Date_UTC 2024 0 2, Date_UTC 2024 0 3, Date_UTC 2024 0 5]"

text \<open>
  For the rankings: in \<open>rankingStore\<close> user \<open>a\<close> has ten active goal check-ins, \<open>b\<close> four
  goal and three streak check-ins, \<open>c\<close> seven streak check-ins and \<open>d\<close> one inactive
  check-in (scores 10, 7, 7 and none); \<open>laterStore\<close> holds different data for the same
  period. The leaderboard table starts with an entry of December and a stale entry of
  January.
\<close>

definition goalCheckinsOf :: "string \<Rightarrow> nat \<Rightarrow> goalCheckin list" where
  "goalCheckinsOf u n =
     map (\<lambda>k. \<lparr>gc_goalId = ''g'', gc_userId = u, gc_date = 1704067200000 + int k * 86400000,
                gc_done = True, gc_value = None\<rparr>) [0..<n]"

definition streakCheckinsOf :: "string \<Rightarrow> nat \<Rightarrow> streakCheckin list" where
  "streakCheckinsOf u n =
     map (\<lambda>k. \<lparr>sc_streakId = ''s'', sc_userId = u, sc_date = 1704067200000 + int k * 86400000,
                sc_done = True\<rparr>) [0..<n]"

definition rankingStore :: store where
  "rankingStore =
     \<lparr>goals = [],
      goalCheckins = goalCheckinsOf ''a'' 10 @ goalCheckinsOf ''b'' 4
        @ [\<lparr>gc_goalId = ''g'', gc_userId = ''d'', gc_date = 1704067200000, gc_done = False,
             gc_value = None\<rparr>],
      streakMembers = [],
      streakCheckins = streakCheckinsOf ''b'' 3 @ streakCheckinsOf ''c'' 7\<rparr>"

definition laterStore :: store where
  "laterStore =
     \<lparr>goals = [],
      goalCheckins = goalCheckinsOf ''c'' 4 @ goalCheckinsOf ''e'' 3,
      streakMembers = [],
      streakCheckins = streakCheckinsOf ''f'' 2 @ streakCheckinsOf ''h'' 1\<rparr>"

definition januaryRanking :: computeRankingDto where
  "januaryRanking = \<lparr>dto_period = ''2024-01'', dto_from = 1704067200000, dto_to = 1706659200000,
                      dto_metadata = None\<rparr>"

definition initialWorld :: world where
  "initialWorld = \<lparr>rankingEntries =
                [\<lparr>re_period = ''2023-12'', re_userId = ''z'', re_score = 5, re_extra = None\<rparr>,
                 \<lparr>re_period = ''2024-01'', re_userId = ''old'', re_score = 99, re_extra = None\<rparr>],
              dispatched = []\<rparr>"

definition rankingNote :: "notificationType \<Rightarrow> nat \<Rightarrow> int \<Rightarrow> nat \<Rightarrow> notification" where
  "rankingNote kind rank score users =
     \<lparr>n_type = kind, n_period = ''2024-01'', n_rank = rank, n_score = score,
      n_totalUsers = users, n_label = None\<rparr>"

definition januaryEntry :: "string \<Rightarrow> int \<Rightarrow> rankingEntry" where
  "januaryEntry u score = \<lparr>re_period = ''2024-01'', re_userId = u, re_score = score, re_extra = None\<rparr>"

text \<open>
  For the activity metrics: a comparator by character code, a store whose first
  check-in of 2024-01-01 is inactive, and one that holds nothing but that check-in.
\<close>

definition codeUnitCompare :: "string \<Rightarrow> string \<Rightarrow> int" where
  "codeUnitCompare a b = (if a < b then - 1 else if a = b then 0 else 1)"

definition metricsStore :: store where
  "metricsStore =
     \<lparr>goals = [],
      goalCheckins =
        [\<lparr>gc_goalId = ''g1'', gc_userId = ''u1'', gc_date = 1704240000000, gc_done = True,
           gc_value = None\<rparr>,
         \<lparr>gc_goalId = ''g1'', gc_userId = ''u1'', gc_date = 1704067200000, gc_done = False,
           gc_value = None\<rparr>,
         \<lparr>gc_goalId = ''g2'', gc_userId = ''u1'', gc_date = 1704240000000, gc_done = False,
           gc_value = Some 2\<rparr>],
      streakMembers = [],
      streakCheckins =
        [\<lparr>sc_streakId = ''s1'', sc_userId = ''u1'', sc_date = 1704153600000, sc_done = True\<rparr>,
         \<lparr>sc_streakId = ''s1'', sc_userId = ''u1'', sc_date = 1704240000000, sc_done = True\<rparr>,
         \<lparr>sc_streakId = ''s2'', sc_userId = ''u1'', sc_date = 1704153600000, sc_done = False\<rparr>]\<rparr>"

definition idleStore :: store where
  "idleStore =
     \<lparr>goals = [],
      goalCheckins =
        [\<lparr>gc_goalId = ''g1'', gc_userId = ''u1'', gc_date = 1704067200000, gc_done = False,
           gc_value = None\<rparr>],
      streakMembers = [], streakCheckins = []\<rparr>"

section \<open>The calendar functions\<close>

text \<open>
  The closed form of \<open>YearFromDay\<close> agrees with the definition of the language
  specification, the fields of a date make the day they were taken from, and two
  midnights with the same ISO string are the same day.
\<close>

lemma div_succ:
  fixes k n :: int
  assumes "0 < n"
  shows "(k + 1) div n = k div n + (if (k + 1) mod n = 0 then 1 else 0)"
proof -
  have split: "k + 1 = n * (k div n) + (k mod n + 1)"
    by simp
  show ?thesis
  proof (cases "k mod n + 1 = n")
    case True
    have "n * (k div n + 1) = n * (k div n) + n"
      by (simp add: algebra_simps)
    also have "\<dots> = n * (k div n) + (k mod n + 1)"
      using True by simp
    also have "\<dots> = k + 1"
      by simp
    finally have eq: "k + 1 = n * (k div n + 1)"
      by simp
    have "(k + 1) div n = k div n + 1"
      unfolding eq using assms by simp
    moreover have "(k + 1) mod n = 0"
      unfolding eq by simp
    ultimately show ?thesis by simp
  next
    case False
    have r: "0 \<le> k mod n + 1" "k mod n + 1 < n"
      using assms False pos_mod_bound [of n k] pos_mod_sign [of n k] by linarith+
    have "(k + 1) div n = k div n"
      using int_div_pos_eq [OF split r] .
    moreover have "(k + 1) mod n = k mod n + 1"
      using int_mod_pos_eq [OF split r] .
    moreover have "k mod n + 1 \<noteq> 0"
      using assms pos_mod_sign [of n k] by linarith
    ultimately show ?thesis by simp
  qed
qed

lemma mod_shift: "((y::int) - n * c) mod n = y mod n"
proof -
  have "y - n * c = y + n * (- c)" by simp
  then show ?thesis by (simp only: mod_mult_self2)
qed

lemma dvd_mod0: "(m::int) dvd n \<Longrightarrow> y mod n = 0 \<Longrightarrow> y mod m = 0"
  by (meson dvd_trans dvd_imp_mod_0 mod_0_imp_dvd)


lemma DayFromYear_step: "DayFromYear (y + 1) = DayFromYear y + DaysInYear y"
proof -
  have a: "(y + 1 - 1969) div 4 = (y - 1969) div 4 + (if y mod 4 = 0 then 1 else 0)"
    using div_succ [of 4 "y - 1969"] mod_shift [of y 4 492] by (simp add: algebra_simps)
  have b: "(y + 1 - 1901) div 100 = (y - 1901) div 100 + (if y mod 100 = 0 then 1 else 0)"
    using div_succ [of 100 "y - 1901"] mod_shift [of y 100 19] by (simp add: algebra_simps)
  have c: "(y + 1 - 1601) div 400 = (y - 1601) div 400 + (if y mod 400 = 0 then 1 else 0)"
    using div_succ [of 400 "y - 1601"] mod_shift [of y 400 4] by (simp add: algebra_simps)
  have d1: "y mod 4 = 0" if "y mod 100 = 0"
    using that dvd_mod0 [of 4 100 y] by simp
  have d2: "y mod 100 = 0" if "y mod 400 = 0"
    using that dvd_mod0 [of 100 400 y] by simp
  show ?thesis
    unfolding DayFromYear_def DaysInYear_def a b c using d1 d2 by auto
qed

lemma mod_top:
  fixes x n :: int
  assumes "0 < x" "x \<le> n"
  shows "x mod n = 0 \<longleftrightarrow> x = n"
proof (cases "x = n")
  case True
  then show ?thesis by simp
next
  case False
  then have "x mod n = x" using assms by simp
  then show ?thesis using assms False by simp
qed

lemma DayFromYear_cycles:
  assumes "0 \<le> b" "b \<le> 3" "0 \<le> c" "c \<le> 24" "0 \<le> e" "e \<le> 3"
  shows "DayFromYear (1601 + 400 * a + 100 * b + 4 * c + e)
         = 146097 * a + 36524 * b + 1461 * c + 365 * e - 134774"
proof -
  have q4: "(400 * a + 100 * b + 4 * c + e - 368) div 4 = 100 * a + 25 * b + c - 92"
    using assms by linarith
  have q100: "(400 * a + 100 * b + 4 * c + e - 300) div 100 = 4 * a + b - 3"
    using assms by linarith
  have q400: "(400 * a + 100 * b + 4 * c + e) div 400 = a"
    using assms by linarith
  have "DayFromYear (1601 + 400 * a + 100 * b + 4 * c + e)
        = 365 * (400 * a + 100 * b + 4 * c + e - 369)
          + (400 * a + 100 * b + 4 * c + e - 368) div 4
          - (400 * a + 100 * b + 4 * c + e - 300) div 100
          + (400 * a + 100 * b + 4 * c + e) div 400"
    by (simp add: DayFromYear_def algebra_simps)
  then show ?thesis
    by (simp only: q4 q100 q400) simp
qed

lemma DaysInYear_cycles:
  assumes "0 \<le> b" "b \<le> 3" "0 \<le> c" "c \<le> 24" "0 \<le> e" "e \<le> 3"
  shows "DaysInYear (1601 + 400 * a + 100 * b + 4 * c + e)
         = (if e = 3 \<and> (c < 24 \<or> b = 3) then 366 else 365)"
proof -
  define y where "y = 1601 + 400 * a + 100 * b + 4 * c + e"
  have "y = (1 + e) + 4 * (400 + 100 * a + 25 * b + c)"
    by (simp add: y_def)
  then have m4: "y mod 4 = (1 + e) mod 4"
    by (simp only: mod_mult_self2)
  have "y = (1 + 4 * c + e) + 100 * (16 + 4 * a + b)"
    by (simp add: y_def)
  then have m100: "y mod 100 = (1 + 4 * c + e) mod 100"
    by (simp only: mod_mult_self2)
  have "y = (1 + 100 * b + 4 * c + e) + 400 * (4 + a)"
    by (simp add: y_def)
  then have m400: "y mod 400 = (1 + 100 * b + 4 * c + e) mod 400"
    by (simp only: mod_mult_self2)
  have e4: "(1 + e) mod 4 = 0 \<longleftrightarrow> e = 3"
    using assms mod_top [of "1 + e" 4] by linarith
  have e100: "(1 + 4 * c + e) mod 100 = 0 \<longleftrightarrow> c = 24 \<and> e = 3"
    using assms mod_top [of "1 + 4 * c + e" 100] by linarith
  have e400: "(1 + 100 * b + 4 * c + e) mod 400 = 0 \<longleftrightarrow> b = 3 \<and> c = 24 \<and> e = 3"
    using assms mod_top [of "1 + 100 * b + 4 * c + e" 400] by linarith
  have "DaysInYear y = (if e = 3 \<and> (c < 24 \<or> b = 3) then 366 else 365)"
    unfolding DaysInYear_def m4 m100 m400 e4 e100 e400 using assms by auto
  then show ?thesis by (simp add: y_def)
qed

lemma YearFromDay_bounds:
  "DayFromYear (YearFromDay d) \<le> d \<and> d < DayFromYear (YearFromDay d + 1)"
proof -
  define n where "n = d + 134774"
  define a where "a = n div 146097"
  define r where "r = n mod 146097"
  define b where "b = min 3 (r div 36524)"
  define r2 where "r2 = r - b * 36524"
  define c where "c = r2 div 1461"
  define r3 where "r3 = r2 mod 1461"
  define e where "e = min 3 (r3 div 365)"
  have y: "YearFromDay d = 1601 + 400 * a + 100 * b + 4 * c + e"
    by (simp add: YearFromDay_def Let_def n_def a_def r_def b_def r2_def c_def r3_def e_def)
  have n: "n = 146097 * a + r"
    by (simp add: a_def r_def)
  have r: "0 \<le> r" "r < 146097"
    by (simp_all add: r_def)
  have b: "0 \<le> b" "b \<le> 3"
    using r by (simp_all add: b_def pos_imp_zdiv_nonneg_iff)
  have r2: "0 \<le> r2" "r2 \<le> 36524" "b < 3 \<Longrightarrow> r2 < 36524"
    using r unfolding r2_def b_def min_def by (auto split: if_splits)
  have r2c: "r2 = 1461 * c + r3"
    by (simp add: c_def r3_def)
  have r3: "0 \<le> r3" "r3 \<le> 1460"
    by (simp_all add: r3_def)
  have c: "0 \<le> c" "c \<le> 24"
    using r2 unfolding c_def by linarith+
  have e: "0 \<le> e" "e \<le> 3" "365 * e \<le> r3" "e < 3 \<Longrightarrow> r3 < 365 * e + 365"
    using r3 unfolding e_def min_def by (auto split: if_splits)
  have dy: "DayFromYear (YearFromDay d) = 146097 * a + 36524 * b + 1461 * c + 365 * e - 134774"
    unfolding y using b c e by (intro DayFromYear_cycles) simp_all
  have ly: "DaysInYear (YearFromDay d) = (if e = 3 \<and> (c < 24 \<or> b = 3) then 366 else 365)"
    unfolding y using b c e by (intro DaysInYear_cycles) simp_all
  have d: "d = 146097 * a + 36524 * b + 1461 * c + r3 - 134774"
    using n r2c by (simp add: n_def r2_def)
  have lower: "DayFromYear (YearFromDay d) \<le> d"
    unfolding dy using d e by linarith
  have "r3 - 365 * e < DaysInYear (YearFromDay d)"
  proof (cases "e = 3")
    case False
    then show ?thesis using e ly by (auto split: if_splits)
  next
    case True
    show ?thesis
    proof (cases "c < 24 \<or> b = 3")
      case True
      with \<open>e = 3\<close> r3 ly show ?thesis by simp
    next
      case False
      then have "c = 24" "b < 3" using c b by linarith+
      then have "r3 < 1460" using r2 r2c by linarith
      with \<open>e = 3\<close> False ly show ?thesis by simp
    qed
  qed
  then have upper: "d < DayFromYear (YearFromDay d + 1)"
    unfolding DayFromYear_step dy using d by linarith
  from lower upper show ?thesis by simp
qed

lemma DayFromYear_mono: "y \<le> y' \<Longrightarrow> DayFromYear y \<le> DayFromYear y'"
proof (induction y' rule: int_ge_induct)
  case base
  show ?case by simp
next
  case (step i)
  have "0 \<le> DaysInYear i" by (simp add: DaysInYear_def)
  with step show ?case
    using DayFromYear_step [of i] by linarith
qed

lemma YearFromDay_greatest: "DayFromYear y \<le> d \<Longrightarrow> y \<le> YearFromDay d"
proof (rule ccontr)
  assume le: "DayFromYear y \<le> d" and "\<not> y \<le> YearFromDay d"
  then have "YearFromDay d + 1 \<le> y" by simp
  then have "DayFromYear (YearFromDay d + 1) \<le> DayFromYear y" by (rule DayFromYear_mono)
  with le YearFromDay_bounds [of d] show False by linarith
qed

lemma DayWithinYear_range:
  "0 \<le> DayWithinYear d \<and> DayWithinYear d < DaysInYear (YearFromDay d)"
  using YearFromDay_bounds [of d] DayFromYear_step [of "YearFromDay d"]
  by (simp add: DayWithinYear_def)

lemma MonthFromDay_range: "0 \<le> MonthFromDay d \<and> MonthFromDay d \<le> 11"
  by (simp add: MonthFromDay_def Let_def)

lemma DateFromDay_range: "1 \<le> DateFromDay d \<and> DateFromDay d \<le> 31"
proof -
  have leap: "DaysInYear (YearFromDay d) = (if InLeapYear d then 366 else 365)"
    by (simp add: InLeapYear_def DaysInYear_def)
  show ?thesis
    using DayWithinYear_range [of d] unfolding leap
    by (auto simp add: DateFromDay_def MonthFromDay_def MonthStart_def Let_def split: if_splits)
qed

lemma MakeDay_fields:
  "MakeDay (YearFromDay d) (MonthFromDay d) dt = d - DateFromDay d + dt"
proof -
  have m: "MonthFromDay d div 12 = 0" "MonthFromDay d mod 12 = MonthFromDay d"
    using MonthFromDay_range [of d] by simp_all
  show ?thesis
    by (simp add: MakeDay_def Let_def m DateFromDay_def DayWithinYear_def InLeapYear_def)
qed

lemma Day_MakeDate: "0 \<le> time \<Longrightarrow> time < msPerDay \<Longrightarrow> Day (MakeDate day time) = day"
  by (simp add: Day_def MakeDate_def msPerDay_def)

lemma Day_Date_UTC:
  "Day (Date_UTC y m dt) = MakeDay (if 0 \<le> y \<and> y \<le> 99 then 1900 + y else y) m dt"
  by (simp add: Date_UTC_def Day_MakeDate msPerDay_def)

lemma normalizeDayOf_plain:
  assumes "\<not> (0 \<le> getUTCFullYear t \<and> getUTCFullYear t \<le> 99)"
  shows "normalizeDayOf t = Day t * msPerDay"
proof -
  have "Date_UTC (getUTCFullYear t) (getUTCMonth t) (getUTCDate t)
        = MakeDate (MakeDay (getUTCFullYear t) (getUTCMonth t) (getUTCDate t)) 0"
    unfolding Date_UTC_def using assms by (simp only: if_False)
  also have "\<dots> = Day t * msPerDay"
    using MakeDay_fields [of "Day t" "DateFromDay (Day t)"]
    by (simp add: getUTCFullYear_def getUTCMonth_def getUTCDate_def MakeDate_def)
  finally show ?thesis by (simp add: normalizeDayOf_def)
qed

lemma YearFromDay_epoch: "- 683003 \<le> d \<Longrightarrow> 100 \<le> YearFromDay d"
  by (rule YearFromDay_greatest) (simp add: DayFromYear_def)

lemma normalizeDayOf_midnight: "\<exists>k. normalizeDayOf t = k * msPerDay"
  by (simp add: normalizeDayOf_def Date_UTC_def MakeDate_def)

lemma setUTCDate_Day:
  "Day (setUTCDate t dt) = Day t - getUTCDate t + dt"
proof -
  have "0 \<le> TimeWithinDay t" "TimeWithinDay t < msPerDay"
    by (simp_all add: TimeWithinDay_def msPerDay_def)
  then show ?thesis
    by (simp add: setUTCDate_def Day_MakeDate getUTCFullYear_def getUTCMonth_def getUTCDate_def
        MakeDay_fields)
qed

lemma digitVal_nth: "\<forall>k<10. digitVal (''0123456789'' ! k) = k"
  unfolding digitVal_def by (simp add: eval_nat_numeral All_less_Suc)

lemma digitVal_digitChar: "digitVal (digitChar n) = n mod 10"
  using digitVal_nth by (simp add: digitChar_def)

lemma digitsVal_snoc: "digitsVal (s @ [c]) = 10 * digitsVal s + digitVal c"
  by (simp add: digitsVal_def)

lemma digitsVal_decimal: "digitsVal (decimal n) = n"
proof (induction n rule: decimal.induct)
  case (1 n)
  show ?case
  proof (cases "n < 10")
    case True
    then show ?thesis
      by (subst decimal.simps) (simp add: digitsVal_def digitVal_digitChar)
  next
    case False
    with 1 have "digitsVal (decimal (n div 10)) = n div 10" by simp
    with False show ?thesis
      by (subst decimal.simps) (simp add: digitsVal_snoc digitVal_digitChar)
  qed
qed

lemma digitsVal_zeros: "foldl (\<lambda>a c. 10 * a + digitVal c) 0 (replicate k CHR ''0'') = 0"
  by (induction k) (simp_all add: digitVal_def)

lemma digitsVal_padStart: "digitsVal (padStart k CHR ''0'' s) = digitsVal s"
  by (simp add: padStart_def digitsVal_def digitsVal_zeros)

lemma padded_decimal_inj:
  "padStart k CHR ''0'' (decimal m) = padStart k CHR ''0'' (decimal n) \<Longrightarrow> m = n"
  by (metis digitsVal_padStart digitsVal_decimal)

lemma length_decimal: "0 < k \<Longrightarrow> n < 10 ^ k \<Longrightarrow> length (decimal n) \<le> k"
proof (induction k arbitrary: n)
  case 0
  then show ?case by simp
next
  case (Suc k)
  show ?case
  proof (cases "n < 10")
    case True
    then show ?thesis by (subst decimal.simps) simp
  next
    case False
    with Suc.prems have k: "0 < k" by (cases k) auto
    have "n div 10 < 10 ^ k" using Suc.prems by (simp add: less_mult_imp_div_less mult.commute)
    with Suc.IH k have "length (decimal (n div 10)) \<le> k" by simp
    with False show ?thesis by (subst decimal.simps) simp
  qed
qed

lemma length_decimal_pos: "0 < length (decimal n)"
  by (subst decimal.simps) simp

lemma length_pad2: "0 \<le> n \<Longrightarrow> n < 100 \<Longrightarrow> length (pad2 n) = 2"
  using length_decimal [of 2 "nat n"] by (simp add: pad2_def padStart_def String_of_def)

lemma pad2_inj: "0 \<le> m \<Longrightarrow> 0 \<le> n \<Longrightarrow> pad2 m = pad2 n \<Longrightarrow> m = n"
  using padded_decimal_inj [of 2 "nat m" "nat n"] by (simp add: pad2_def String_of_def)

lemma length_isoYear:
  "length (isoYear y) = (if 0 \<le> y \<and> y \<le> 9999 then 4 else 1 + max 6 (length (decimal (nat \<bar>y\<bar>))))"
  using length_decimal [of 4 "nat y"] by (auto simp: isoYear_def padStart_def)

lemma isoYear_inj: "isoYear x = isoYear y \<Longrightarrow> x = y"
proof -
  assume eq: "isoYear x = isoYear y"
  then have len: "length (isoYear x) = length (isoYear y)" by simp
  show ?thesis
  proof (cases "0 \<le> x \<and> x \<le> 9999")
    case True
    with len have y: "0 \<le> y \<and> y \<le> 9999"
      by (auto simp: length_isoYear split: if_splits)
    with True eq have "nat x = nat y"
      using padded_decimal_inj [of 4 "nat x" "nat y"] by (simp add: isoYear_def)
    with True y show ?thesis by linarith
  next
    case False
    with len have y: "\<not> (0 \<le> y \<and> y \<le> 9999)"
      by (auto simp: length_isoYear split: if_splits)
    from False y eq have sgn: "(x < 0) = (y < 0)" and
      "padStart 6 CHR ''0'' (decimal (nat \<bar>x\<bar>)) = padStart 6 CHR ''0'' (decimal (nat \<bar>y\<bar>))"
      by (auto simp: isoYear_def split: if_splits)
    then have "nat \<bar>x\<bar> = nat \<bar>y\<bar>" using padded_decimal_inj by blast
    with sgn show ?thesis by linarith
  qed
qed

lemma decimal_0: "decimal 0 = ''0''"
  by (subst decimal.simps) (simp add: digitChar_def)

lemma toISOString_midnight:
  assumes "TimeWithinDay t = 0"
  shows "toISOString t =
    isoYear (getUTCFullYear t) @ (''-'' @ pad2 (getUTCMonth t + 1) @ (''-'' @ pad2 (getUTCDate t) @ ''T00:00:00.000Z''))"
  using assms
  by (simp add: toISOString_def Let_def pad2_def padStart_def String_of_def decimal_0 eval_nat_numeral)

lemma Day_fields:
  "Day t = MakeDay (getUTCFullYear t) (getUTCMonth t) (getUTCDate t)"
  using MakeDay_fields [of "Day t" "DateFromDay (Day t)"]
  by (simp add: getUTCFullYear_def getUTCMonth_def getUTCDate_def)

lemma toISOString_inj_midnight:
  assumes s: "TimeWithinDay s = 0" and t: "TimeWithinDay t = 0"
    and eq: "toISOString s = toISOString t"
  shows "s = t"
proof -
  have ms: "0 \<le> getUTCMonth s + 1" "getUTCMonth s + 1 < 100"
    and mt: "0 \<le> getUTCMonth t + 1" "getUTCMonth t + 1 < 100"
    using MonthFromDay_range [of "Day s"] MonthFromDay_range [of "Day t"]
    by (simp_all add: getUTCMonth_def)
  have ds: "0 \<le> getUTCDate s" "getUTCDate s < 100"
    and dt: "0 \<le> getUTCDate t" "getUTCDate t < 100"
    using DateFromDay_range [of "Day s"] DateFromDay_range [of "Day t"]
    by (simp_all add: getUTCDate_def)
  note len = length_pad2 [OF ms] length_pad2 [OF mt] length_pad2 [OF ds] length_pad2 [OF dt]
  from eq have
    "isoYear (getUTCFullYear s) @ (''-'' @ pad2 (getUTCMonth s + 1) @ (''-'' @ pad2 (getUTCDate s) @ ''T00:00:00.000Z''))
     = isoYear (getUTCFullYear t) @ (''-'' @ pad2 (getUTCMonth t + 1) @ (''-'' @ pad2 (getUTCDate t) @ ''T00:00:00.000Z''))"
    by (simp only: toISOString_midnight [OF s] toISOString_midnight [OF t])
  then have y: "isoYear (getUTCFullYear s) = isoYear (getUTCFullYear t)"
    and rest: "pad2 (getUTCMonth s + 1) @ (''-'' @ pad2 (getUTCDate s) @ ''T00:00:00.000Z'')
               = pad2 (getUTCMonth t + 1) @ (''-'' @ pad2 (getUTCDate t) @ ''T00:00:00.000Z'')"
    using len by (simp_all add: append_eq_append_conv)
  from rest have m: "pad2 (getUTCMonth s + 1) = pad2 (getUTCMonth t + 1)"
    and d: "pad2 (getUTCDate s) = pad2 (getUTCDate t)"
    using len by (simp_all add: append_eq_append_conv)
  have "getUTCFullYear s = getUTCFullYear t"
    using y by (rule isoYear_inj)
  moreover have "getUTCMonth s = getUTCMonth t"
    using pad2_inj [OF ms(1) mt(1) m] by simp
  moreover have "getUTCDate s = getUTCDate t"
    using pad2_inj [OF ds(1) dt(1) d] .
  ultimately have "Day s = Day t"
    by (simp add: Day_fields)
  moreover have "s = Day s * msPerDay + TimeWithinDay s" "t = Day t * msPerDay + TimeWithinDay t"
    by (simp_all add: Day_def TimeWithinDay_def)
  ultimately show ?thesis using s t by simp
qed

lemma TimeWithinDay_normalizeDayOf: "TimeWithinDay (normalizeDayOf t) = 0"
  by (simp add: normalizeDayOf_def Date_UTC_def MakeDate_def TimeWithinDay_def)

lemma distinct_day_strings:
  "length (remdups (map (\<lambda>c. toISOString (normalizeDayOf (f c))) cs))
   = card ((\<lambda>c. normalizeDayOf (f c)) ` set cs)"
proof -
  have inj: "inj_on toISOString ((\<lambda>c. normalizeDayOf (f c)) ` set cs)"
    by (rule inj_onI) (auto intro: toISOString_inj_midnight simp: TimeWithinDay_normalizeDayOf)
  have "length (remdups (map (\<lambda>c. toISOString (normalizeDayOf (f c))) cs))
        = card (toISOString ` (\<lambda>c. normalizeDayOf (f c)) ` set cs)"
    by (simp add: length_remdups_card_conv image_image)
  also have "\<dots> = card ((\<lambda>c. normalizeDayOf (f c)) ` set cs)"
    using inj by (rule card_image)
  finally show ?thesis .
qed

lemma Day_midnight: "Day (k * msPerDay) = k"
  by (simp add: Day_def msPerDay_def)

lemma normalizeDayOf_recent:
  assumes "- 683003 \<le> Day t"
  shows "normalizeDayOf t = Day t * msPerDay"
proof -
  have "100 \<le> getUTCFullYear t"
    using YearFromDay_epoch [OF assms] by (simp add: getUTCFullYear_def)
  then show ?thesis
    by (intro normalizeDayOf_plain) simp
qed

lemma Day_nonneg: "0 \<le> t \<Longrightarrow> 0 \<le> Day t"
  by (simp add: Day_def msPerDay_def pos_imp_zdiv_nonneg_iff)

lemma normalizeDayOf_multiple: "normalizeDayOf t = Day (normalizeDayOf t) * msPerDay"
  by (simp add: normalizeDayOf_def Date_UTC_def MakeDate_def Day_def msPerDay_def)

section \<open>Week keys\<close>

text \<open>
  C1. The week key of the code at the two days named by the specification: 2024-01-01 is a
  Monday (weekday 1) and 2023-12-31 a Sunday (weekday 0). The code subtracts January 4th
  of the week start's year, whatever its weekday, and so yields week 00 of 2024 and
  week 51 of 2023, where ISO-8601 numbers these weeks 2024-W01 and 2023-W52.
\<close>

theorem bucketKey_week_examples:
  "toISOString (Date_UTC 2024 0 1) = ''2024-01-01T00:00:00.000Z''
   \<and> getUTCDay (Date_UTC 2024 0 1) = 1
   \<and> bucketKey (Date_UTC 2024 0 1) PWeek = ''2024-W00''
   \<and> toISOString (Date_UTC 2023 11 31) = ''2023-12-31T00:00:00.000Z''
   \<and> getUTCDay (Date_UTC 2023 11 31) = 0
   \<and> bucketKey (Date_UTC 2023 11 31) PWeek = ''2023-W51''"
  by code_simp

section \<open>Range resolution\<close>

lemma example_range:
  "resolveRange exampleParse exampleNow january = Inr (1704067200000, 1706659200000)"
  by code_simp

lemma default_window:
  assumes "0 \<le> now"
  shows "normalizeDayOf now = Day now * msPerDay"
    and "normalizeDayOf (setUTCDate now (getUTCDate now - 30)) = Day now * msPerDay - 30 * msPerDay"
proof -
  have d: "0 \<le> Day now" using assms by (rule Day_nonneg)
  then show "normalizeDayOf now = Day now * msPerDay"
    by (intro normalizeDayOf_recent) simp
  have e: "Day (setUTCDate now (getUTCDate now - 30)) = Day now - 30"
    by (simp add: setUTCDate_Day)
  with d have "normalizeDayOf (setUTCDate now (getUTCDate now - 30))
          = Day (setUTCDate now (getUTCDate now - 30)) * msPerDay"
    by (intro normalizeDayOf_recent) simp
  then have "normalizeDayOf (setUTCDate now (getUTCDate now - 30)) = (Day now - 30) * msPerDay"
    by (simp only: e)
  then show "normalizeDayOf (setUTCDate now (getUTCDate now - 30))
          = Day now * msPerDay - 30 * msPerDay"
    by (simp add: algebra_simps)
qed

text \<open>
  C2, as the code has it. With neither end supplied (and a clock that is not before 1970)
  the window is \<open>[today - 30 days, today]\<close> in normalized days, which is 31 days
  inclusive, and its \<open>to\<close> is the midnight of today's date. With any arguments whose
  ends resolve to \<open>from\<close> and \<open>to\<close>, the call fails exactly when \<open>from > to\<close>, with the
  range error, and returns \<open>(from, to)\<close> otherwise.
\<close>

theorem resolveRange_window:
  "(0 \<le> now \<and> q_from q = None \<and> q_to q = None \<longrightarrow>
      resolveRange parse now q = Inr (normalizeDayOf now - 30 * msPerDay, normalizeDayOf now)
      \<and> normalizeDayOf now = Day now * msPerDay
      \<and> daysBetweenInclusive (normalizeDayOf now - 30 * msPerDay) (normalizeDayOf now) = 31)
   \<and> (resolveEnd parse (setUTCDate now (getUTCDate now - 30)) (q_from q) = Inr from
        \<and> resolveEnd parse now (q_to q) = Inr to \<longrightarrow>
          (isl (resolveRange parse now q) \<longleftrightarrow> from > to)
          \<and> (resolveRange parse now q
               = (if from > to then Inl ForbiddenException else Inr (from, to))))"
proof (intro conjI impI)
  assume a: "0 \<le> now \<and> q_from q = None \<and> q_to q = None"
  then have w: "normalizeDayOf now = Day now * msPerDay"
    "normalizeDayOf (setUTCDate now (getUTCDate now - 30)) = Day now * msPerDay - 30 * msPerDay"
    using default_window by simp_all
  show "resolveRange parse now q = Inr (normalizeDayOf now - 30 * msPerDay, normalizeDayOf now)"
    using a by (simp add: resolveRange_def resolveEnd_def w msPerDay_def)
  show "normalizeDayOf now = Day now * msPerDay" by (rule w)
  have "Day now * msPerDay - 30 * msPerDay = (Day now - 30) * msPerDay"
    by (simp add: algebra_simps)
  then show "daysBetweenInclusive (normalizeDayOf now - 30 * msPerDay) (normalizeDayOf now) = 31"
    by (simp add: daysBetweenInclusive_def w Day_midnight)
next
  assume "resolveEnd parse (setUTCDate now (getUTCDate now - 30)) (q_from q) = Inr from
        \<and> resolveEnd parse now (q_to q) = Inr to"
  then show "isl (resolveRange parse now q) \<longleftrightarrow> from > to"
    and "resolveRange parse now q = (if from > to then Inl ForbiddenException else Inr (from, to))"
    by (simp_all add: resolveRange_def)
qed

lemma example_ends:
  "resolveEnd exampleParse (setUTCDate exampleNow (getUTCDate exampleNow - 30)) (q_from january)
     = Inr 1704067200000
   \<and> resolveEnd exampleParse exampleNow (q_to january) = Inr 1706659200000"
  by code_simp

lemma example_today: "normalizeDayOf exampleNow = 1710460800000"
  by code_simp

text \<open>With the clock at 2024-03-15T12:34:56Z the default window runs from 2024-02-14 to 2024-03-15.\<close>

theorem resolveRange_window_witness:
  "resolveRange exampleParse exampleNow noRange = Inr (1707868800000, 1710460800000)
   \<and> daysBetweenInclusive 1707868800000 1710460800000 = 31
   \<and> resolveRange exampleParse exampleNow january = Inr (1704067200000, 1706659200000)"
proof -
  have now: "0 \<le> exampleNow \<and> q_from noRange = None \<and> q_to noRange = None"
    by (simp add: exampleNow_def noRange_def)
  from resolveRange_window [of exampleNow noRange exampleParse 0 0] now
  have "resolveRange exampleParse exampleNow noRange = Inr (1707868800000, 1710460800000)"
    and "daysBetweenInclusive 1707868800000 1710460800000 = 31"
    by (simp_all add: example_today msPerDay_def)
  moreover
  from resolveRange_window [of exampleNow january exampleParse 1704067200000 1706659200000]
    example_ends
  have "resolveRange exampleParse exampleNow january = Inr (1704067200000, 1706659200000)"
    by simp
  ultimately show ?thesis by simp
qed

text \<open>The default window of that day has 31 days inclusive, not 30.\<close>

theorem resolveRange_default_counterexample:
  "resolveRange exampleParse exampleNow noRange = Inr (1707868800000, 1710460800000)
   \<and> daysBetweenInclusive 1707868800000 1710460800000 = 31
   \<and> daysBetweenInclusive 1707868800000 1710460800000 \<noteq> 30"
  by code_simp

section \<open>Goal progress\<close>

lemma foldl_valueSum:
  "foldl (\<lambda>acc c. acc + valueOr0 c) a cs = a + sum_list (map valueOr0 cs)"
  by (induction cs arbitrary: a) simp_all

lemma totalDays_inclusive:
  assumes "normalizeDayOf a \<le> normalizeDayOf b"
  shows "(normalizeDayOf b - normalizeDayOf a) div MS_PER_DAY + 1
           = daysBetweenInclusive (normalizeDayOf a) (normalizeDayOf b)"
    and "0 < (normalizeDayOf b - normalizeDayOf a) div MS_PER_DAY + 1"
proof -
  have "normalizeDayOf b - normalizeDayOf a
        = (Day (normalizeDayOf b) - Day (normalizeDayOf a)) * msPerDay"
    using normalizeDayOf_multiple [of a] normalizeDayOf_multiple [of b]
    by (simp add: algebra_simps)
  then have d: "(normalizeDayOf b - normalizeDayOf a) div MS_PER_DAY
        = Day (normalizeDayOf b) - Day (normalizeDayOf a)"
    by (simp add: MS_PER_DAY_def msPerDay_def)
  show "(normalizeDayOf b - normalizeDayOf a) div MS_PER_DAY + 1
           = daysBetweenInclusive (normalizeDayOf a) (normalizeDayOf b)"
    by (simp add: d daysBetweenInclusive_def)
  have "Day (normalizeDayOf a) \<le> Day (normalizeDayOf b)"
    using assms by (simp add: Day_def msPerDay_def zdiv_mono1)
  then show "0 < (normalizeDayOf b - normalizeDayOf a) div MS_PER_DAY + 1"
    by (simp add: d)
qed

lemma completionOf_DAILY:
  assumes "g_targetType g = DAILY"
  shows "completionOf g to doneDays valueSum =
     (let goalStart = normalizeDayOf (g_startDate g);
          goalEnd = normalizeDayOf (case g_endDate g of None \<Rightarrow> to | Some e \<Rightarrow> e);
          totalDays = daysBetweenInclusive goalStart goalEnd
      in if goalEnd < goalStart then None
         else Some (of_int (min (int doneDays) totalDays) / of_int totalDays))"
proof (cases "normalizeDayOf (g_startDate g)
                \<le> normalizeDayOf (case g_endDate g of None \<Rightarrow> to | Some e \<Rightarrow> e)")
  case True
  from totalDays_inclusive [OF True] True assms show ?thesis
    by (simp add: completionOf_def Let_def)
next
  case False
  with assms show ?thesis
    by (simp add: completionOf_def Let_def)
qed

text \<open>
  C4. For a DAILY goal, with \<open>goalStart\<close> the normalized start date and \<open>goalEnd\<close> the
  normalized end date (the range's \<open>to\<close> when the goal has none), \<open>goalProgress\<close> returns,
  and its completion is null when \<open>goalEnd < goalStart\<close> and otherwise
  \<open>min doneDays totalDays / totalDays\<close>, where \<open>totalDays\<close> is the inclusive number of
  days from \<open>goalStart\<close> to \<open>goalEnd\<close> and \<open>doneDays\<close> the number of distinct calendar
  days among the active check-ins of the goal in the range.
\<close>

theorem goalProgress_DAILY_completion:
  assumes "getOwnedGoal db userId goalId = Inr g"
    and "resolveRange parse now q = Inr (from, to)"
    and "g_targetType g = DAILY"
  shows "\<exists>r. goalProgress parse now db userId goalId q = Inr r \<and>
     gp_completion r =
       (let goalStart = normalizeDayOf (g_startDate g);
            goalEnd = normalizeDayOf (case g_endDate g of None \<Rightarrow> to | Some e \<Rightarrow> e);
            totalDays = daysBetweenInclusive goalStart goalEnd;
            doneDays = int (card ((\<lambda>c. normalizeDayOf (gc_date c)) `
                         set (filter isActive
                           (filter (\<lambda>c. gc_goalId c = goalId \<and> gc_userId c = userId
                                       \<and> from \<le> gc_date c \<and> gc_date c \<le> to) (goalCheckins db)))))
        in if goalEnd < goalStart then None
           else Some (of_int (min doneDays totalDays) / of_int totalDays))"
  using assms
  by (simp add: goalProgress_def Let_def completionOf_DAILY distinct_day_strings)

lemma example_days:
  "normalizeDayOf 1704067200000 = 1704067200000 \<and> normalizeDayOf 1704153600000 = 1704153600000
   \<and> normalizeDayOf 1704240000000 = 1704240000000 \<and> normalizeDayOf 1704326400000 = 1704326400000
   \<and> normalizeDayOf 1704412800000 = 1704412800000 \<and> normalizeDayOf 1704499200000 = 1704499200000
   \<and> normalizeDayOf 1704585600000 = 1704585600000 \<and> normalizeDayOf 1704672000000 = 1704672000000
   \<and> normalizeDayOf 1704844800000 = 1704844800000"
  by code_simp

lemma example_daily_goal:
  "getOwnedGoal exampleStore ''u1'' ''daily'' =
     Inr \<lparr>g_id = ''daily'', g_userId = ''u1'', g_targetType = DAILY, g_targetValue = None,
          g_startDate = 1704067200000, g_endDate = Some 1704844800000\<rparr>"
  by (simp add: getOwnedGoal_def exampleStore_def exampleGoals_def)

text \<open>
  The example of the specification: a goal from 2024-01-01 to 2024-01-10 with seven
  distinct active days (and an inactive check-in on the eighth) has completion 7/10.
\<close>

theorem goalProgress_DAILY_completion_witness:
  "\<exists>r. goalProgress exampleParse exampleNow exampleStore ''u1'' ''daily'' january = Inr r
       \<and> gp_completion r = Some (7 / 10)"
  using goalProgress_DAILY_completion [OF example_daily_goal example_range]
  by (simp add: example_days exampleStore_def exampleGoalCheckins_def dailyCheckin_def
      isActive_def valueOr0_def daysBetweenInclusive_def Day_def msPerDay_def)

lemma completionOf_nonDAILY:
  assumes "g_targetType g \<noteq> DAILY"
  shows "completionOf g to doneDays valueSum =
     (case g_targetValue g of
        None \<Rightarrow> None
      | Some target \<Rightarrow> if target > 0 then Some (min 1 (of_int valueSum / of_int target)) else None)"
  using assms by (auto simp: completionOf_def split: option.splits)

text \<open>
  C5, as the code has it. For a goal that is not DAILY, whatever its kind (COUNT, WEEKLY
  or BOOLEAN): when the target value is present and positive the completion is
  \<open>min 1 (valueSum / targetValue)\<close>, and so never exceeds 1; when it is absent or not
  positive the completion is null.
\<close>

theorem goalProgress_target_completion:
  assumes "getOwnedGoal db userId goalId = Inr g"
    and "resolveRange parse now q = Inr (from, to)"
    and "g_targetType g \<noteq> DAILY"
  shows "\<exists>r. goalProgress parse now db userId goalId q = Inr r
           \<and> gp_valueSum r = sum_list (map valueOr0
                 (filter (\<lambda>c. gc_goalId c = goalId \<and> gc_userId c = userId
                              \<and> from \<le> gc_date c \<and> gc_date c \<le> to) (goalCheckins db)))
           \<and> gp_completion r =
                (case g_targetValue g of
                   None \<Rightarrow> None
                 | Some target \<Rightarrow>
                     if target > 0 then Some (min 1 (of_int (gp_valueSum r) / of_int target))
                     else None)
           \<and> (\<forall>x. gp_completion r = Some x \<longrightarrow> x \<le> 1)"
  using assms
  by (auto simp: goalProgress_def Let_def foldl_valueSum completionOf_nonDAILY split: option.splits)

lemma example_count_goal:
  "getOwnedGoal exampleStore ''u1'' ''count'' =
     Inr \<lparr>g_id = ''count'', g_userId = ''u1'', g_targetType = COUNT, g_targetValue = Some 20,
          g_startDate = 1704067200000, g_endDate = None\<rparr>"
  by (simp add: getOwnedGoal_def exampleStore_def exampleGoals_def)

lemma example_bool_goal:
  "getOwnedGoal exampleStore ''u1'' ''bool'' =
     Inr \<lparr>g_id = ''bool'', g_userId = ''u1'', g_targetType = BOOLEAN, g_targetValue = Some 5,
          g_startDate = 1704067200000, g_endDate = None\<rparr>"
  by (simp add: getOwnedGoal_def exampleStore_def exampleGoals_def)

lemma example_store_checkins: "goalCheckins exampleStore = exampleGoalCheckins"
  by (simp add: exampleStore_def)

text \<open>Target 20 and values 12 + 13 = 25: the completion is capped at 1.\<close>

theorem goalProgress_target_completion_witness:
  "\<exists>r. goalProgress exampleParse exampleNow exampleStore ''u1'' ''count'' january = Inr r
       \<and> gp_valueSum r = 25 \<and> gp_completion r = Some 1"
proof -
  from goalProgress_target_completion [OF example_count_goal example_range]
  obtain r where "goalProgress exampleParse exampleNow exampleStore ''u1'' ''count'' january = Inr r"
    and "gp_valueSum r = 25"
    and "gp_completion r = Some (min 1 (of_int (gp_valueSum r) / 20))"
    by (auto simp add: example_store_checkins exampleGoalCheckins_def dailyCheckin_def valueOr0_def)
  then show ?thesis by simp
qed

text \<open>
  A BOOLEAN goal whose \<open>targetValue\<close> column holds 5 (goal creation checks the target
  value of COUNT and WEEKLY goals only) and that has no check-ins: the completion is 0,
  not null.
\<close>

theorem goalProgress_BOOLEAN_counterexample:
  "goalProgress exampleParse exampleNow exampleStore ''u1'' ''bool'' january =
     Inr \<lparr>gp_goalId = ''bool'', gp_targetType = BOOLEAN, gp_targetValue = Some 5,
          gp_from = 1704067200000, gp_to = 1706659200000, gp_totalCheckins = 0,
          gp_doneCount = 0, gp_valueSum = 0, gp_completion = Some 0\<rparr>"
  by (simp add: goalProgress_def example_bool_goal example_range completionOf_def
      example_store_checkins exampleGoalCheckins_def dailyCheckin_def)

section \<open>Run tracker\<close>

lemma consecutiveDays_snoc:
  "consecutiveDays (xs @ [x]) \<longleftrightarrow> xs = [] \<or> (consecutiveDays xs \<and> x - last xs = msPerDay)"
  by (induction xs rule: consecutiveDays.induct) simp_all

lemma runEndingAtLast_Max: "runEndingAtLast ds = Max (suffixRuns ds)"
proof -
  have "set (filter consecutiveDays (suffixes ds)) = {s. suffix s ds \<and> consecutiveDays s}"
    by auto
  then show ?thesis
    by (simp add: runEndingAtLast_def suffixRuns_def)
qed

lemma longestRun_Max: "longestRun ds = Max (sublistRuns ds)"
proof -
  have "set (filter consecutiveDays (sublists ds)) = {s. sublist s ds \<and> consecutiveDays s}"
    by auto
  then show ?thesis
    by (simp add: longestRun_def sublistRuns_def)
qed

lemma finite_suffixRuns: "finite (suffixRuns ds)" "0 \<in> suffixRuns ds"
proof -
  have "{s. suffix s ds \<and> consecutiveDays s} \<subseteq> set (suffixes ds)" by auto
  then have "finite {s. suffix s ds \<and> consecutiveDays s}"
    using finite_subset by blast
  then show "finite (suffixRuns ds)" by (simp add: suffixRuns_def)
  have "[] \<in> {s. suffix s ds \<and> consecutiveDays s}" by simp
  then show "0 \<in> suffixRuns ds" unfolding suffixRuns_def by force
qed

lemma finite_sublistRuns: "finite (sublistRuns ds)" "0 \<in> sublistRuns ds"
proof -
  have "{s. sublist s ds \<and> consecutiveDays s} \<subseteq> set (sublists ds)" by auto
  then have "finite {s. sublist s ds \<and> consecutiveDays s}"
    using finite_subset by blast
  then show "finite (sublistRuns ds)" by (simp add: sublistRuns_def)
  have "[] \<in> {s. sublist s ds \<and> consecutiveDays s}" by simp
  then show "0 \<in> sublistRuns ds" unfolding sublistRuns_def by force
qed

lemma suffixRuns_snoc:
  "suffixRuns (ds @ [d]) =
     (if ds = [] \<or> d - last ds \<noteq> msPerDay then {0, 1} else insert 0 (Suc ` suffixRuns ds))"
proof -
  have "{s. suffix s (ds @ [d]) \<and> consecutiveDays s}
        = insert [] ((\<lambda>z. z @ [d]) ` {z. suffix z ds \<and> consecutiveDays (z @ [d])})"
    by auto
  then have split: "suffixRuns (ds @ [d])
      = insert 0 (Suc ` length ` {z. suffix z ds \<and> consecutiveDays (z @ [d])})"
    unfolding suffixRuns_def by (simp add: image_image)
  have last_suffix: "last z = last ds" if "suffix z ds" "z \<noteq> []" for z
    using that by (auto simp: suffix_def)
  have key: "consecutiveDays (z @ [d]) \<longleftrightarrow> z = [] \<or> (consecutiveDays z \<and> d - last ds = msPerDay)"
    if "suffix z ds" for z
    using that last_suffix [of z] by (cases "z = []") (simp_all add: consecutiveDays_snoc)
  show ?thesis
  proof (cases "ds = [] \<or> d - last ds \<noteq> msPerDay")
    case True
    then have "{z. suffix z ds \<and> consecutiveDays (z @ [d])} = {[]}"
      by (auto simp: key)
    with True show ?thesis unfolding split by simp
  next
    case False
    then have "{z. suffix z ds \<and> consecutiveDays (z @ [d])} = {z. suffix z ds \<and> consecutiveDays z}"
      by (auto simp: key)
    with False show ?thesis unfolding split by (simp add: suffixRuns_def)
  qed
qed

lemma runEndingAtLast_snoc:
  "runEndingAtLast (ds @ [d]) =
     (if ds = [] \<or> d - last ds \<noteq> msPerDay then 1 else runEndingAtLast ds + 1)"
proof (cases "ds = [] \<or> d - last ds \<noteq> msPerDay")
  case True
  then show ?thesis by (simp add: runEndingAtLast_Max suffixRuns_snoc)
next
  case False
  have "Max (insert 0 (Suc ` suffixRuns ds)) = Max (Suc ` suffixRuns ds)"
    using finite_suffixRuns [of ds] by (subst Max_insert) auto
  also have "\<dots> = Suc (Max (suffixRuns ds))"
    using finite_suffixRuns [of ds] by (intro mono_Max_commute [symmetric]) (auto simp: mono_def)
  finally show ?thesis using False by (simp add: runEndingAtLast_Max suffixRuns_snoc)
qed

lemma longestRun_snoc:
  "longestRun (ds @ [d]) = max (longestRun ds) (runEndingAtLast (ds @ [d]))"
proof -
  have "sublistRuns (ds @ [d]) = sublistRuns ds \<union> suffixRuns (ds @ [d])"
    unfolding sublistRuns_def suffixRuns_def by (auto simp: sublist_snoc)
  moreover have "sublistRuns ds \<noteq> {}" "suffixRuns (ds @ [d]) \<noteq> {}"
    using finite_sublistRuns(2) [of ds] finite_suffixRuns(2) [of "ds @ [d]"] by auto
  ultimately show ?thesis
    using finite_sublistRuns(1) [of ds] finite_suffixRuns(1) [of "ds @ [d]"]
    by (simp add: longestRun_Max runEndingAtLast_Max Max_Un)
qed

lemma runEndingAtLast_single: "runEndingAtLast [d] = 1"
  using runEndingAtLast_snoc [of "[]" d] by simp

lemma longestRun_single: "longestRun [d] = 1"
  using longestRun_snoc [of "[]" d] by (simp add: runEndingAtLast_single longestRun_def)

lemma runEndingAtLast_Nil: "runEndingAtLast [] = 0"
  by (simp add: runEndingAtLast_def)

lemma longestRun_Nil: "longestRun [] = 0"
  by (simp add: longestRun_def)

lemma diff_is_one_day:
  "((of_int (d - p) :: rat) / of_int (1000 * 60 * 60 * 24) = 1) \<longleftrightarrow> d - p = msPerDay"
proof -
  have "(of_int (d - p) :: rat) = of_int 86400000 \<longleftrightarrow> d - p = 86400000"
    by (rule of_int_eq_iff)
  then show ?thesis by (simp add: msPerDay_def)
qed

lemma runStep_first:
  assumes "prev st = None"
  shows "runStep st r = \<lparr>longest = max (longest st) 1, current = 1, prev = Some (normalizeDayOf r)\<rparr>"
  using assms by (simp add: runStep_def Let_def)

lemma runStep_next:
  assumes "prev st = Some p"
  shows "runStep st r =
     \<lparr>longest = max (longest st) (if normalizeDayOf r - p = msPerDay then current st + 1 else 1),
      current = (if normalizeDayOf r - p = msPerDay then current st + 1 else 1),
      prev = Some (normalizeDayOf r)\<rparr>"
  using assms diff_is_one_day [of "normalizeDayOf r" p]
  by (simp add: runStep_def Let_def del: of_int_diff)

lemma runLoop_invariant:
  "prev (runLoop rows) = (if rows = [] then None else Some (last (map normalizeDayOf rows)))
   \<and> current (runLoop rows) = int (runEndingAtLast (map normalizeDayOf rows))
   \<and> longest (runLoop rows) = int (longestRun (map normalizeDayOf rows))"
proof (induction rows rule: rev_induct)
  case Nil
  show ?case by (simp add: runLoop_def runEndingAtLast_Nil longestRun_Nil)
next
  case (snoc r rows)
  have step: "runLoop (rows @ [r]) = runStep (runLoop rows) r"
    by (simp add: runLoop_def)
  show ?case
  proof (cases "rows = []")
    case True
    then have "prev (runLoop rows) = None" "longest (runLoop rows) = 0"
      by (simp_all add: runLoop_def)
    with True show ?thesis
      unfolding step by (simp add: runStep_first runEndingAtLast_single longestRun_single)
  next
    case False
    define days where "days = map normalizeDayOf rows"
    have days: "days \<noteq> []" "map normalizeDayOf (rows @ [r]) = days @ [normalizeDayOf r]"
      using False by (simp_all add: days_def)
    from snoc False have p: "prev (runLoop rows) = Some (last days)"
      and c: "current (runLoop rows) = int (runEndingAtLast days)"
      and l: "longest (runLoop rows) = int (longestRun days)"
      by (simp_all add: days_def)
    have cur: "(if normalizeDayOf r - last days = msPerDay then current (runLoop rows) + 1 else 1)
               = int (runEndingAtLast (days @ [normalizeDayOf r]))"
      using days(1) by (simp add: runEndingAtLast_snoc c)
    show ?thesis
      unfolding step runStep_next [OF p] cur days(2)
      by (simp add: l longestRun_snoc)
  qed
qed

lemma statsOfRows_stretches:
  "statsOfRows u rows =
     \<lparr>ms_userId = u,
      ms_current = int (runEndingAtLast (map normalizeDayOf rows)),
      ms_longest = int (longestRun (map normalizeDayOf rows)),
      ms_totalDone = length rows\<rparr>"
  using runLoop_invariant [of rows] by (simp add: statsOfRows_def Let_def)

text \<open>
  In an ascending sequence of calendar days without duplicates, a set of consecutive days
  that all occur is a stretch of the sequence, and the other way round.
\<close>

lemma daysFrom_Suc: "daysFrom a (Suc n) = daysFrom a n @ [a + int n * msPerDay]"
  by (simp add: daysFrom_def)

lemma length_daysFrom: "length (daysFrom a n) = n"
  by (simp add: daysFrom_def)

lemma last_daysFrom: "last (daysFrom a (Suc n)) = a + int n * msPerDay"
  by (simp add: daysFrom_Suc)

lemma consecutiveDays_daysFrom: "consecutiveDays (daysFrom a n)"
proof (induction n)
  case 0
  show ?case by (simp add: daysFrom_def)
next
  case (Suc n)
  show ?case
  proof (cases n)
    case 0
    then show ?thesis by (simp add: daysFrom_def)
  next
    case (Suc m)
    with Suc.IH show ?thesis
      unfolding daysFrom_Suc [of a n] consecutiveDays_snoc
      by (simp add: last_daysFrom algebra_simps)
  qed
qed

lemma consecutive_is_daysFrom:
  "consecutiveDays s \<Longrightarrow> s \<noteq> [] \<Longrightarrow> s = daysFrom (hd s) (length s)"
proof (induction s rule: rev_induct)
  case Nil
  then show ?case by simp
next
  case (snoc x xs)
  show ?case
  proof (cases "xs = []")
    case True
    then show ?thesis by (simp add: daysFrom_def)
  next
    case False
    with snoc.prems have c: "consecutiveDays xs" and x: "x - last xs = msPerDay"
      by (simp_all add: consecutiveDays_snoc)
    from snoc.IH [OF c False] have xs: "xs = daysFrom (hd xs) (length xs)" .
    obtain m where m: "length xs = Suc m" using False by (cases xs) auto
    have "last xs = hd xs + int m * msPerDay"
      using xs m last_daysFrom [of "hd xs" m] by simp
    with x have "x = hd xs + int (length xs) * msPerDay"
      by (simp add: m algebra_simps)
    with xs False show ?thesis
      by (simp add: daysFrom_Suc)
  qed
qed

lemma next_day:
  fixes y a :: int
  assumes "msPerDay dvd y" "msPerDay dvd a" "a + int m * msPerDay < y"
  shows "a + int (Suc m) * msPerDay \<le> y"
proof -
  from assms(1,2) have "msPerDay dvd (y - a)" by (rule dvd_diff)
  then obtain q where q: "y - a = msPerDay * q" by (auto simp: dvd_def)
  have pos: "0 < msPerDay" by (simp add: msPerDay_def)
  from assms(3) q have "msPerDay * int m < msPerDay * q" by (simp add: algebra_simps)
  with pos have "int m < q" by (simp add: mult_less_cancel_left_pos)
  then have "int m + 1 \<le> q" by simp
  with pos have "msPerDay * (int m + 1) \<le> msPerDay * q" by (simp add: mult_le_cancel_left_pos)
  with q show ?thesis by (simp add: algebra_simps)
qed

lemma first_daysFrom: "a \<in> set (daysFrom a (Suc m))"
proof (induction m)
  case 0
  show ?case by (simp add: daysFrom_def)
next
  case (Suc m)
  then show ?case by (simp add: daysFrom_Suc [of a "Suc m"])
qed

lemma in_daysFrom: "x \<in> set (daysFrom a n) \<longleftrightarrow> (\<exists>k<n. x = a + int k * msPerDay)"
  unfolding daysFrom_def by (simp add: image_iff Bex_def) 

lemma daysFrom_block:
  assumes sorted: "sorted_wrt (<) ds"
    and days: "\<forall>x \<in> set ds. msPerDay dvd x"
  shows "set (daysFrom a (Suc m)) \<subseteq> set ds \<Longrightarrow> \<exists>ps ss. ds = ps @ daysFrom a (Suc m) @ ss"
proof (induction m)
  case 0
  then have "a \<in> set ds" by (simp add: daysFrom_def)
  then obtain ps ss where "ds = ps @ a # ss" by (auto dest: split_list)
  then show ?case by (auto simp: daysFrom_def)
next
  case (Suc m)
  let ?b = "a + int (Suc m) * msPerDay"
  let ?l = "a + int m * msPerDay"
  from Suc.prems have sub: "set (daysFrom a (Suc m)) \<subseteq> set ds" and b: "?b \<in> set ds"
    by (simp_all add: daysFrom_Suc [of a "Suc m"])
  from Suc.IH [OF sub] obtain ps ss where ds: "ds = ps @ daysFrom a (Suc m) @ ss" by blast
  have a: "a \<in> set ds" using sub first_daysFrom [of a m] by blast
  have l: "?l \<in> set (daysFrom a (Suc m))" by (simp add: daysFrom_Suc)
  have pos: "0 < msPerDay" by (simp add: msPerDay_def)
  from sorted have s1: "\<forall>x \<in> set ps. \<forall>y \<in> set (daysFrom a (Suc m)). x < y"
    and s2: "\<forall>x \<in> set (daysFrom a (Suc m)). \<forall>y \<in> set ss. x < y"
    and s3: "sorted_wrt (<) ss"
    unfolding ds by (auto simp: sorted_wrt_append)
  have below: "x \<le> ?l" if "x \<in> set ps \<union> set (daysFrom a (Suc m))" for x
  proof -
    from that consider "x \<in> set ps" | "x \<in> set (daysFrom a (Suc m))" by auto
    then show ?thesis
    proof cases
      case 1
      with s1 l have "x < ?l" by blast
      then show ?thesis by simp
    next
      case 2
      then obtain k where "k < Suc m" "x = a + int k * msPerDay"
        unfolding in_daysFrom by blast
      with pos show ?thesis by (simp add: mult_right_mono)
    qed
  qed
  have "?l < ?b" using pos by simp
  with below have "?b \<notin> set ps \<union> set (daysFrom a (Suc m))" by fastforce
  with b have "?b \<in> set ss" unfolding ds by auto
  then obtain y ss' where ss: "ss = y # ss'" by (cases ss) auto
  have "?l < y"
    using s2 l unfolding ss by simp
  moreover have "msPerDay dvd y" "msPerDay dvd a"
    using days a unfolding ds ss by auto
  ultimately have ge: "?b \<le> y" by (intro next_day)
  have "y \<le> ?b"
    using s3 \<open>?b \<in> set ss\<close> unfolding ss by auto
  with ge have "y = ?b" by simp
  then have "ds = ps @ daysFrom a (Suc (Suc m)) @ ss'"
    unfolding ds ss by (simp add: daysFrom_Suc [of a "Suc m"])
  then show ?case by blast
qed

lemma in_daysUntil: "x \<in> set (daysUntil b n) \<longleftrightarrow> (\<exists>k<n. x = b - int k * msPerDay)"
  unfolding daysUntil_def by (simp add: image_iff Bex_def)

lemma set_daysUntil:
  "set (daysUntil b (Suc m)) = set (daysFrom (b - int m * msPerDay) (Suc m))"
proof (intro set_eqI iffI)
  fix x
  assume "x \<in> set (daysUntil b (Suc m))"
  then obtain k where k: "k < Suc m" "x = b - int k * msPerDay"
    unfolding in_daysUntil by blast
  then have "m - k < Suc m" "x = (b - int m * msPerDay) + int (m - k) * msPerDay"
    by (simp_all add: algebra_simps of_nat_diff)
  then show "x \<in> set (daysFrom (b - int m * msPerDay) (Suc m))"
    unfolding in_daysFrom by blast
next
  fix x
  assume "x \<in> set (daysFrom (b - int m * msPerDay) (Suc m))"
  then obtain k where k: "k < Suc m" "x = (b - int m * msPerDay) + int k * msPerDay"
    unfolding in_daysFrom by blast
  then have "m - k < Suc m" "x = b - int (m - k) * msPerDay"
    by (simp_all add: algebra_simps of_nat_diff)
  then show "x \<in> set (daysUntil b (Suc m))"
    unfolding in_daysUntil by blast
qed

lemma sublistRuns_days:
  assumes "sorted_wrt (<) ds" and "\<forall>x \<in> set ds. msPerDay dvd x"
  shows "sublistRuns ds = {n. \<exists>a. set (daysFrom a n) \<subseteq> set ds}"
proof (intro set_eqI iffI)
  fix n
  assume "n \<in> sublistRuns ds"
  then obtain s where s: "sublist s ds" "consecutiveDays s" "n = length s"
    by (auto simp: sublistRuns_def)
  show "n \<in> {n. \<exists>a. set (daysFrom a n) \<subseteq> set ds}"
  proof (cases "s = []")
    case True
    with s show ?thesis by (simp add: daysFrom_def)
  next
    case False
    with s have "s = daysFrom (hd s) n" by (simp add: consecutive_is_daysFrom)
    moreover have "set s \<subseteq> set ds" using s(1) by (rule set_mono_sublist)
    ultimately have "set (daysFrom (hd s) n) \<subseteq> set ds" by simp
    then show ?thesis by blast
  qed
next
  fix n
  assume "n \<in> {n. \<exists>a. set (daysFrom a n) \<subseteq> set ds}"
  then obtain a where a: "set (daysFrom a n) \<subseteq> set ds" by blast
  have "sublist (daysFrom a n) ds"
  proof (cases n)
    case 0
    then show ?thesis by (simp add: daysFrom_def)
  next
    case (Suc m)
    with daysFrom_block [OF assms, of a m] a show ?thesis
      by (auto simp: sublist_def)
  qed
  then have "daysFrom a n \<in> {s. sublist s ds \<and> consecutiveDays s}"
    by (simp add: consecutiveDays_daysFrom)
  then have "length (daysFrom a n) \<in> sublistRuns ds"
    unfolding sublistRuns_def by (rule imageI)
  then show "n \<in> sublistRuns ds" by (simp add: length_daysFrom)
qed

lemma suffixRuns_days:
  assumes "sorted_wrt (<) ds" and "\<forall>x \<in> set ds. msPerDay dvd x"
  shows "suffixRuns ds = {n. set (daysUntil (last ds) n) \<subseteq> set ds}"
proof (intro set_eqI iffI)
  fix n
  assume "n \<in> suffixRuns ds"
  then obtain s where s: "suffix s ds" "consecutiveDays s" "n = length s"
    by (auto simp: suffixRuns_def)
  show "n \<in> {n. set (daysUntil (last ds) n) \<subseteq> set ds}"
  proof (cases n)
    case 0
    then show ?thesis by (simp add: daysUntil_def)
  next
    case (Suc m)
    with s have ne: "s \<noteq> []" by auto
    with s have eq: "s = daysFrom (hd s) (Suc m)"
      using consecutive_is_daysFrom [of s] Suc by simp
    have "last s = last ds" using s(1) ne by (auto simp: suffix_def)
    moreover have "last s = hd s + int m * msPerDay"
      using eq last_daysFrom [of "hd s" m] by simp
    ultimately have "hd s = last ds - int m * msPerDay" by simp
    with eq have "set (daysUntil (last ds) (Suc m)) = set s"
      by (simp add: set_daysUntil)
    moreover have "set s \<subseteq> set ds" using s(1) by (rule set_mono_suffix)
    ultimately show ?thesis using Suc by simp
  qed
next
  fix n
  assume "n \<in> {n. set (daysUntil (last ds) n) \<subseteq> set ds}"
  then have sub: "set (daysUntil (last ds) n) \<subseteq> set ds" by simp
  have "\<exists>s. suffix s ds \<and> consecutiveDays s \<and> length s = n"
  proof (cases n)
    case 0
    have "suffix [] ds \<and> consecutiveDays [] \<and> length ([] :: int list) = 0" by simp
    with 0 show ?thesis by blast
  next
    case (Suc m)
    define a where "a = last ds - int m * msPerDay"
    from sub Suc have "set (daysFrom a (Suc m)) \<subseteq> set ds"
      by (simp add: set_daysUntil a_def)
    from daysFrom_block [OF assms this] obtain ps ss
      where ds: "ds = ps @ daysFrom a (Suc m) @ ss" by blast
    have l: "last (daysFrom a (Suc m)) = last ds"
      by (simp add: last_daysFrom a_def)
    have "ss = []"
    proof (rule ccontr)
      assume ne: "ss \<noteq> []"
      have "last ds = last ss"
        by (subst ds) (simp add: ne)
      with ne have "last ds \<in> set ss" by simp
      moreover have "last ds \<in> set (daysFrom a (Suc m))"
        using l last_in_set [of "daysFrom a (Suc m)"] by (simp add: daysFrom_Suc)
      moreover have "sorted_wrt (<) (ps @ daysFrom a (Suc m) @ ss)"
        using assms(1) ds by simp
      then have "\<forall>x \<in> set (daysFrom a (Suc m)). \<forall>y \<in> set ss. x < y"
        by (auto simp: sorted_wrt_append)
      ultimately show False by fastforce
    qed
    with ds have "suffix (daysFrom a (Suc m)) ds" by (auto simp: suffix_def)
    with Suc show ?thesis
      using consecutiveDays_daysFrom length_daysFrom by blast
  qed
  then show "n \<in> suffixRuns ds" by (auto simp: suffixRuns_def)
qed

lemma calendarDay_dvd: "calendarDay t \<Longrightarrow> msPerDay dvd t"
  by (simp add: calendarDay_def TimeWithinDay_def dvd_eq_mod_eq_0)

text \<open>
  Every normalized day is a calendar day, and normalizing a calendar day changes nothing:
  the rows of the store, written through \<open>normalizeDay\<close>, are calendar days.
\<close>

lemma MonthStart_nonneg: "0 \<le> MonthStart leap m"
  by (simp add: MonthStart_def Let_def)

lemma calendarDay_normalizeDayOf: "calendarDay (normalizeDayOf t)"
proof -
  define y where "y = getUTCFullYear t"
  have year: "\<not> (0 \<le> getUTCFullYear (normalizeDayOf t) \<and> getUTCFullYear (normalizeDayOf t) \<le> 99)"
  proof (cases "0 \<le> y \<and> y \<le> 99")
    case False
    then have "normalizeDayOf t = Day t * msPerDay"
      by (intro normalizeDayOf_plain) (simp add: y_def)
    then have "getUTCFullYear (normalizeDayOf t) = y"
      by (simp add: getUTCFullYear_def Day_midnight y_def)
    with False show ?thesis by simp
  next
    case True
    then have "Day (normalizeDayOf t) = MakeDay (1900 + y) (getUTCMonth t) (getUTCDate t)"
      by (simp add: normalizeDayOf_def Day_Date_UTC y_def)
    also have "\<dots> = DayFromYear (1900 + y)
          + MonthStart (DaysInYear (1900 + y) = 366) (getUTCMonth t) + getUTCDate t - 1"
      using MonthFromDay_range [of "Day t"] by (simp add: MakeDay_def Let_def getUTCMonth_def)
    finally have d: "Day (normalizeDayOf t) = DayFromYear (1900 + y)
          + MonthStart (DaysInYear (1900 + y) = 366) (getUTCMonth t) + getUTCDate t - 1" .
    have "DayFromYear 1900 \<le> DayFromYear (1900 + y)"
      using True by (intro DayFromYear_mono) simp
    moreover have "DayFromYear 1900 = - 25567"
      by (simp add: DayFromYear_def)
    moreover have "1 \<le> getUTCDate t"
      using DateFromDay_range [of "Day t"] by (simp add: getUTCDate_def)
    ultimately have "- 683003 \<le> Day (normalizeDayOf t)"
      using MonthStart_nonneg [of "DaysInYear (1900 + y) = 366" "getUTCMonth t"] unfolding d
      by linarith
    then have "100 \<le> getUTCFullYear (normalizeDayOf t)"
      unfolding getUTCFullYear_def by (rule YearFromDay_epoch)
    then show ?thesis by simp
  qed
  then show ?thesis
    by (simp add: calendarDay_def TimeWithinDay_normalizeDayOf)
qed

lemma normalizeDayOf_calendarDay: "calendarDay t \<Longrightarrow> normalizeDayOf t = t"
proof -
  assume c: "calendarDay t"
  then have "normalizeDayOf t = Day t * msPerDay"
    by (intro normalizeDayOf_plain) (simp add: calendarDay_def)
  moreover have "t = Day t * msPerDay + TimeWithinDay t"
    by (simp add: Day_def TimeWithinDay_def)
  ultimately show ?thesis using c by (simp add: calendarDay_def)
qed

lemma normalizeDayOf_idem: "normalizeDayOf (normalizeDayOf t) = normalizeDayOf t"
  by (intro normalizeDayOf_calendarDay calendarDay_normalizeDayOf)

lemma runLoop_example:
  assumes "normalizeDayOf d = d" and "normalizeDayOf (d + msPerDay) = d + msPerDay"
    and "normalizeDayOf (d + 2 * msPerDay) = d + 2 * msPerDay"
    and "normalizeDayOf (d + 4 * msPerDay) = d + 4 * msPerDay"
  shows "runLoop [d, d + msPerDay, d + 2 * msPerDay, d + 4 * msPerDay]
         = \<lparr>longest = 3, current = 1, prev = Some (d + 4 * msPerDay)\<rparr>"
proof -
  let ?s0 = "\<lparr>longest = 0, current = 0, prev = None\<rparr>"
  have 1: "runStep ?s0 d = \<lparr>longest = 1, current = 1, prev = Some d\<rparr>"
    by (simp add: runStep_first assms)
  have 2: "runStep \<lparr>longest = 1, current = 1, prev = Some d\<rparr> (d + msPerDay)
           = \<lparr>longest = 2, current = 2, prev = Some (d + msPerDay)\<rparr>"
    by (simp add: runStep_next [where p = d] assms)
  have 3: "runStep \<lparr>longest = 2, current = 2, prev = Some (d + msPerDay)\<rparr> (d + 2 * msPerDay)
           = \<lparr>longest = 3, current = 3, prev = Some (d + 2 * msPerDay)\<rparr>"
    by (simp add: runStep_next [where p = "d + msPerDay"] assms)
  have 4: "runStep \<lparr>longest = 3, current = 3, prev = Some (d + 2 * msPerDay)\<rparr> (d + 4 * msPerDay)
           = \<lparr>longest = 3, current = 1, prev = Some (d + 4 * msPerDay)\<rparr>"
    using assms(4) by (simp add: runStep_next [where p = "d + 2 * msPerDay"] msPerDay_def)
  show ?thesis
    by (simp add: runLoop_def 1 2 3 4)
qed

text \<open>
  C3. For every ascending, duplicate-free sequence of calendar days given to the run
  tracker: \<open>longest\<close> is the greatest number of consecutive calendar days that all occur
  in the sequence, \<open>current\<close> the number of consecutive calendar days, counted back from
  the last element, that all occur, and \<open>totalDone\<close> the number of elements; the empty
  sequence gives 0, 0, 0, and four days D1, D2, D3, D5 with D4 missing give current 1,
  longest 3 and total 4.
\<close>

theorem statsOfRows_runs:
  assumes "sorted rows" and "distinct rows" and "\<forall>t \<in> set rows. calendarDay t"
  shows "statsOfRows u rows =
     \<lparr>ms_userId = u,
      ms_current = int (Max {n. set (daysUntil (last rows) n) \<subseteq> set rows}),
      ms_longest = int (Max {n. \<exists>a. set (daysFrom a n) \<subseteq> set rows}),
      ms_totalDone = length rows\<rparr>
   \<and> statsOfRows u [] = \<lparr>ms_userId = u, ms_current = 0, ms_longest = 0, ms_totalDone = 0\<rparr>
   \<and> (calendarDay d \<and> calendarDay (d + msPerDay) \<and> calendarDay (d + 2 * msPerDay)
        \<and> calendarDay (d + 4 * msPerDay) \<longrightarrow>
        statsOfRows u [d, d + msPerDay, d + 2 * msPerDay, d + 4 * msPerDay]
          = \<lparr>ms_userId = u, ms_current = 1, ms_longest = 3, ms_totalDone = 4\<rparr>)"
proof -
  have days: "map normalizeDayOf rows = rows"
    using assms(3) by (intro map_idI) (simp add: normalizeDayOf_calendarDay)
  have strict: "sorted_wrt (<) rows"
    using assms(1,2) by (simp add: strict_sorted_iff)
  have dvd: "\<forall>x \<in> set rows. msPerDay dvd x"
    using assms(3) by (simp add: calendarDay_dvd)
  have "runEndingAtLast rows = Max {n. set (daysUntil (last rows) n) \<subseteq> set rows}"
    by (simp add: runEndingAtLast_Max suffixRuns_days [OF strict dvd])
  moreover have "longestRun rows = Max {n. \<exists>a. set (daysFrom a n) \<subseteq> set rows}"
    by (simp add: longestRun_Max sublistRuns_days [OF strict dvd])
  moreover have "statsOfRows u [] = \<lparr>ms_userId = u, ms_current = 0, ms_longest = 0, ms_totalDone = 0\<rparr>"
    by (simp add: statsOfRows_stretches runEndingAtLast_Nil longestRun_Nil)
  moreover have "statsOfRows u [d, d + msPerDay, d + 2 * msPerDay, d + 4 * msPerDay]
          = \<lparr>ms_userId = u, ms_current = 1, ms_longest = 3, ms_totalDone = 4\<rparr>"
    if "calendarDay d \<and> calendarDay (d + msPerDay) \<and> calendarDay (d + 2 * msPerDay)
        \<and> calendarDay (d + 4 * msPerDay)"
    using that by (simp add: statsOfRows_def runLoop_example normalizeDayOf_calendarDay)
  ultimately show ?thesis
    using statsOfRows_stretches [of u rows] by (simp add: days)
qed

lemma example_rows:
  "exampleRows = [1704067200000, 1704153600000, 1704240000000, 1704412800000]"
  by code_simp

lemma example_calendar:
  "calendarDay 1704067200000 \<and> calendarDay 1704153600000
   \<and> calendarDay 1704240000000 \<and> calendarDay 1704412800000"
  by code_simp

text \<open>
  The days D1, D2, D3, D5 (January 1st, 2nd, 3rd and 5th, 2024): longest 3, current 1,
  total 4.
\<close>

theorem statsOfRows_runs_witness:
  "statsOfRows ''u1'' exampleRows
     = \<lparr>ms_userId = ''u1'', ms_current = 1, ms_longest = 3, ms_totalDone = 4\<rparr>
   \<and> Max {n. \<exists>a. set (daysFrom a n) \<subseteq> set exampleRows} = 3
   \<and> Max {n. set (daysUntil (last exampleRows) n) \<subseteq> set exampleRows} = 1"
proof -
  have "sorted exampleRows" "distinct exampleRows" "\<forall>t \<in> set exampleRows. calendarDay t"
    by (simp_all add: example_rows example_calendar)
  from statsOfRows_runs [OF this, of "''u1''" 1704067200000]
  have spec: "statsOfRows ''u1'' exampleRows =
      \<lparr>ms_userId = ''u1'',
       ms_current = int (Max {n. set (daysUntil (last exampleRows) n) \<subseteq> set exampleRows}),
       ms_longest = int (Max {n. \<exists>a. set (daysFrom a n) \<subseteq> set exampleRows}),
       ms_totalDone = length exampleRows\<rparr>"
    and "calendarDay 1704067200000 \<and> calendarDay (1704067200000 + msPerDay)
         \<and> calendarDay (1704067200000 + 2 * msPerDay)
         \<and> calendarDay (1704067200000 + 4 * msPerDay) \<longrightarrow>
         statsOfRows ''u1'' [1704067200000, 1704067200000 + msPerDay,
            1704067200000 + 2 * msPerDay, 1704067200000 + 4 * msPerDay]
           = \<lparr>ms_userId = ''u1'', ms_current = 1, ms_longest = 3, ms_totalDone = 4\<rparr>"
    by blast+
  then have result: "statsOfRows ''u1'' exampleRows
      = \<lparr>ms_userId = ''u1'', ms_current = 1, ms_longest = 3, ms_totalDone = 4\<rparr>"
    using example_calendar by (simp add: example_rows msPerDay_def)
  with spec show ?thesis by simp
qed

section \<open>Rankings\<close>

lemma entriesData_period: "e \<in> set (entriesDataOf db tza dto) \<Longrightarrow> re_period e = dto_period dto"
  by (auto simp: entriesDataOf_def)

lemma filter_entriesData_same:
  "filter (\<lambda>e. re_period e = dto_period dto) (entriesDataOf db tza dto) = entriesDataOf db tza dto"
  by (rule filter_True) (simp add: entriesData_period)

lemma filter_entriesData_other:
  "p \<noteq> dto_period dto \<Longrightarrow> filter (\<lambda>e. re_period e = p) (entriesDataOf db tza dto) = []"
  by (auto simp: filter_empty_conv dest: entriesData_period)

lemma filter_entriesData_not:
  "filter (\<lambda>e. re_period e \<noteq> dto_period dto) (entriesDataOf db tza dto) = []"
  by (auto simp: filter_empty_conv dest: entriesData_period)

lemma read_back:
  "sort_key (\<lambda>e. - re_score e)
     (filter (\<lambda>e. re_period e = dto_period dto)
        (filter (\<lambda>e. re_period e \<noteq> dto_period dto) old @ entriesDataOf db tza dto))
   = rankingsOf db tza dto"
proof -
  have "filter (\<lambda>e. re_period e = dto_period dto) (filter (\<lambda>e. re_period e \<noteq> dto_period dto) old) = []"
    by (simp add: filter_empty_conv)
  then show ?thesis
    by (simp add: filter_entriesData_same rankingsOf_def)
qed

lemma compute_eq:
  "compute tza createForUser db dto w =
     (if entriesDataOf db tza dto = []
      then (Inr (NoEntries (dto_period dto)),
            w\<lparr>rankingEntries := filter (\<lambda>e. re_period e \<noteq> dto_period dto) (rankingEntries w)\<rparr>)
      else (if list_all (\<lambda>(userId, n). createForUser userId n) (dispatchesOf db tza dto)
            then Inr (Ranked \<lparr>rr_period = dto_period dto, rr_from = dto_from dto,
                               rr_to = setHoursEndOfDay tza (dto_to dto),
                               rr_totalUsers = length (rankingsOf db tza dto),
                               rr_rankings = rankingsOf db tza dto\<rparr>)
            else Inl DispatchRejected,
            \<lparr>rankingEntries = filter (\<lambda>e. re_period e \<noteq> dto_period dto) (rankingEntries w)
                                @ entriesDataOf db tza dto,
             dispatched = dispatched w @ dispatchesOf db tza dto\<rparr>))"
  unfolding compute_def Let_def read_back by (simp add: dispatchesOf_def)

lemma rankingsOf_Nil: "entriesDataOf db tza dto = [] \<Longrightarrow> rankingsOf db tza dto = []"
  by (simp add: rankingsOf_def)

lemma dispatchesOf_Nil: "entriesDataOf db tza dto = [] \<Longrightarrow> dispatchesOf db tza dto = []"
  by (simp add: dispatchesOf_def rankingsOf_Nil)

lemma compute_store:
  "rankingEntries (snd (compute tza createForUser db dto w))
     = filter (\<lambda>e. re_period e \<noteq> dto_period dto) (rankingEntries w) @ entriesDataOf db tza dto"
  by (simp add: compute_eq)

lemma compute_dispatched:
  "dispatched (snd (compute tza createForUser db dto w)) = dispatched w @ dispatchesOf db tza dto"
  by (simp add: compute_eq dispatchesOf_Nil)

text \<open>
  C6. Two successive computations for the same period: afterwards the entries persisted
  for the period are exactly those computed from the second input, and the entries of
  every other period are what they were before either computation.
\<close>

theorem compute_replaces_period:
  assumes "dto_period dtoA = dto_period dtoB"
  shows "let wA = snd (compute tzaA notifyA dbA dtoA w);
             wB = snd (compute tzaB notifyB dbB dtoB wA)
         in filter (\<lambda>e. re_period e = dto_period dtoB) (rankingEntries wB) = entriesDataOf dbB tzaB dtoB
            \<and> (\<forall>p. p \<noteq> dto_period dtoB \<longrightarrow>
                  filter (\<lambda>e. re_period e = p) (rankingEntries wB)
                    = filter (\<lambda>e. re_period e = p) (rankingEntries wA)
                  \<and> filter (\<lambda>e. re_period e = p) (rankingEntries wA)
                    = filter (\<lambda>e. re_period e = p) (rankingEntries w))"
proof -
  define p where "p = dto_period dtoB"
  define wA where "wA = snd (compute tzaA notifyA dbA dtoA w)"
  define wB where "wB = snd (compute tzaB notifyB dbB dtoB wA)"
  have s1: "rankingEntries wA
            = filter (\<lambda>e. re_period e \<noteq> p) (rankingEntries w) @ entriesDataOf dbA tzaA dtoA"
    using assms by (simp add: wA_def p_def compute_store)
  have s2: "rankingEntries wB
            = filter (\<lambda>e. re_period e \<noteq> p) (rankingEntries wA) @ entriesDataOf dbB tzaB dtoB"
    by (simp add: wB_def p_def compute_store)
  have e1: "filter (\<lambda>e. re_period e = q) (entriesDataOf dbA tzaA dtoA) = []" if "q \<noteq> p" for q
    using that assms by (intro filter_entriesData_other) (simp add: p_def)
  have e2: "filter (\<lambda>e. re_period e = q) (entriesDataOf dbB tzaB dtoB) = []" if "q \<noteq> p" for q
    using that by (intro filter_entriesData_other) (simp add: p_def)
  have e2': "filter (\<lambda>e. re_period e = p) (entriesDataOf dbB tzaB dtoB) = entriesDataOf dbB tzaB dtoB"
    unfolding p_def by (rule filter_entriesData_same)
  have none: "filter (\<lambda>e. re_period e = p) (filter (\<lambda>e. re_period e \<noteq> p) old) = []" for old
    by (simp add: filter_empty_conv)
  have keep: "filter (\<lambda>e. re_period e = q) (filter (\<lambda>e. re_period e \<noteq> p) old)
               = filter (\<lambda>e. re_period e = q) old" if "q \<noteq> p" for q old
    unfolding filter_filter using that by (intro filter_cong) auto
  have a: "filter (\<lambda>e. re_period e = p) (rankingEntries wB) = entriesDataOf dbB tzaB dtoB"
    unfolding s2 filter_append none e2' by simp
  have b: "filter (\<lambda>e. re_period e = q) (rankingEntries wB)
           = filter (\<lambda>e. re_period e = q) (rankingEntries wA)" if "q \<noteq> p" for q
    unfolding s2 filter_append keep [OF that] e2 [OF that] by simp
  have c: "filter (\<lambda>e. re_period e = q) (rankingEntries wA)
           = filter (\<lambda>e. re_period e = q) (rankingEntries w)" if "q \<noteq> p" for q
    unfolding s1 filter_append keep [OF that] e1 [OF that] by simp
  from a b c show ?thesis
    unfolding Let_def wA_def [symmetric] wB_def [symmetric] p_def [symmetric] by simp
qed

lemma example_entries:
  "entriesDataOf rankingStore 0 januaryRanking
     = [januaryEntry ''a'' 10, januaryEntry ''b'' 7, januaryEntry ''c'' 7]
   \<and> entriesDataOf laterStore 0 januaryRanking
     = [januaryEntry ''c'' 4, januaryEntry ''e'' 3, januaryEntry ''f'' 2, januaryEntry ''h'' 1]"
  by code_simp

lemma example_rankings:
  "rankingsOf rankingStore 0 januaryRanking
     = [januaryEntry ''a'' 10, januaryEntry ''b'' 7, januaryEntry ''c'' 7]
   \<and> rankingsOf laterStore 0 januaryRanking
     = [januaryEntry ''c'' 4, januaryEntry ''e'' 3, januaryEntry ''f'' 2, januaryEntry ''h'' 1]"
  by code_simp

lemma example_dispatches:
  "dispatchesOf rankingStore 0 januaryRanking
     = [(''a'', rankingNote RANKING_TOP3 1 10 3), (''b'', rankingNote RANKING_TOP3 2 7 3),
        (''c'', rankingNote RANKING_TOP3 3 7 3)]
   \<and> dispatchesOf laterStore 0 januaryRanking
     = [(''c'', rankingNote RANKING_TOP3 1 4 4), (''e'', rankingNote RANKING_TOP3 2 3 4),
        (''f'', rankingNote RANKING_TOP3 3 2 4), (''h'', rankingNote RANKING_RESULT 4 1 4)]"
  by code_simp

text \<open>
  Two runs for January over different data: only the second result remains, next to the
  December entry.
\<close>

theorem compute_replaces_period_witness:
  "filter (\<lambda>e. re_period e = ''2024-01'')
     (rankingEntries (snd (compute 0 (\<lambda>u n. True) laterStore januaryRanking
        (snd (compute 0 (\<lambda>u n. True) rankingStore januaryRanking initialWorld)))))
     = [januaryEntry ''c'' 4, januaryEntry ''e'' 3, januaryEntry ''f'' 2, januaryEntry ''h'' 1]
   \<and> filter (\<lambda>e. re_period e = ''2023-12'')
     (rankingEntries (snd (compute 0 (\<lambda>u n. True) laterStore januaryRanking
        (snd (compute 0 (\<lambda>u n. True) rankingStore januaryRanking initialWorld)))))
     = [\<lparr>re_period = ''2023-12'', re_userId = ''z'', re_score = 5, re_extra = None\<rparr>]"
proof -
  have p: "dto_period januaryRanking = ''2024-01''" by (simp add: januaryRanking_def)
  have "''2023-12'' \<noteq> dto_period januaryRanking" by (simp add: p)
  with compute_replaces_period [where dtoA = januaryRanking and dtoB = januaryRanking
      and tzaA = 0 and tzaB = 0 and notifyA = "\<lambda>u n. True" and notifyB = "\<lambda>u n. True"
      and dbA = rankingStore and dbB = laterStore and w = initialWorld]
  show ?thesis
    by (simp add: Let_def p example_entries) (simp add: initialWorld_def)
qed

lemma sorted_rankingsOf:
  "sorted_wrt (\<lambda>a b. re_score a \<ge> re_score b) (rankingsOf db tza dto)"
proof -
  have "sorted (map (\<lambda>e. - re_score e) (rankingsOf db tza dto))"
    by (simp add: rankingsOf_def)
  then show ?thesis
    by (simp add: sorted_map)
qed

lemma dispatchesOf_nth:
  assumes "i < length (rankingsOf db tza dto)"
  shows "dispatchesOf db tza dto ! i =
     (re_userId (rankingsOf db tza dto ! i),
      \<lparr>n_type = (if i + 1 \<le> 3 then RANKING_TOP3 else RANKING_RESULT),
       n_period = dto_period dto, n_rank = i + 1, n_score = re_score (rankingsOf db tza dto ! i),
       n_totalUsers = length (rankingsOf db tza dto),
       n_label = (case dto_metadata dto of None \<Rightarrow> None | Some m \<Rightarrow> md_label m)\<rparr>)"
  using assms by (simp add: dispatchesOf_def nth_enumerate_eq notificationFor_def Let_def)

lemma length_dispatchesOf: "length (dispatchesOf db tza dto) = length (rankingsOf db tza dto)"
  by (simp add: dispatchesOf_def)

lemma compute_result:
  "fst (compute tza createForUser db dto w) = Inr (Ranked r)
   \<Longrightarrow> rr_rankings r = rankingsOf db tza dto \<and> rr_totalUsers r = length (rankingsOf db tza dto)"
  by (auto simp: compute_eq split: if_splits)

text \<open>
  C7. The leaderboard read back holds the computed entries in descending order of score;
  the notifications started are, by position \<open>i\<close>, addressed to the user of entry \<open>i\<close> with
  rank \<open>i + 1\<close> (so ranks run 1, 2, 3, ... without gaps, ties included), kind TOP3
  exactly when the rank is at most 3 and RESULT otherwise, and the period, the score of
  the entry and the number of ranked users; a returned result carries that leaderboard.
\<close>

theorem compute_ranks_by_position:
  "dispatched (snd (compute tza createForUser db dto w)) = dispatched w @ dispatchesOf db tza dto
   \<and> length (dispatchesOf db tza dto) = length (rankingsOf db tza dto)
   \<and> set (rankingsOf db tza dto) = set (entriesDataOf db tza dto)
   \<and> sorted_wrt (\<lambda>a b. re_score a \<ge> re_score b) (rankingsOf db tza dto)
   \<and> (\<forall>i < length (rankingsOf db tza dto).
         dispatchesOf db tza dto ! i =
           (re_userId (rankingsOf db tza dto ! i),
            \<lparr>n_type = (if i + 1 \<le> 3 then RANKING_TOP3 else RANKING_RESULT),
             n_period = dto_period dto, n_rank = i + 1,
             n_score = re_score (rankingsOf db tza dto ! i),
             n_totalUsers = length (rankingsOf db tza dto),
             n_label = (case dto_metadata dto of None \<Rightarrow> None | Some m \<Rightarrow> md_label m)\<rparr>))
   \<and> (\<forall>r. fst (compute tza createForUser db dto w) = Inr (Ranked r) \<longrightarrow>
          rr_rankings r = rankingsOf db tza dto
          \<and> rr_totalUsers r = length (rankingsOf db tza dto))"
proof (intro conjI allI impI)
  show "set (rankingsOf db tza dto) = set (entriesDataOf db tza dto)"
    by (simp add: rankingsOf_def)
qed (simp_all add: compute_dispatched length_dispatchesOf sorted_rankingsOf dispatchesOf_nth
    compute_result)

text \<open>
  Scores 10, 7, 7 give ranks 1, 2, 3, all TOP3; with four ranked users the fourth gets
  RESULT.
\<close>

theorem compute_ranks_by_position_witness:
  "map re_score (rankingsOf rankingStore 0 januaryRanking) = [10, 7, 7]
   \<and> map (\<lambda>(u, n). (u, n_rank n, n_type n))
        (dispatched (snd (compute 0 (\<lambda>u n. True) rankingStore januaryRanking initialWorld)))
       = [(''a'', 1, RANKING_TOP3), (''b'', 2, RANKING_TOP3), (''c'', 3, RANKING_TOP3)]
   \<and> map (\<lambda>(u, n). (u, n_rank n, n_type n))
        (dispatched (snd (compute 0 (\<lambda>u n. True) laterStore januaryRanking initialWorld)))
       = [(''c'', 1, RANKING_TOP3), (''e'', 2, RANKING_TOP3), (''f'', 3, RANKING_TOP3),
          (''h'', 4, RANKING_RESULT)]"
  using compute_ranks_by_position [of 0 "\<lambda>u n. True" rankingStore januaryRanking initialWorld]
    compute_ranks_by_position [of 0 "\<lambda>u n. True" laterStore januaryRanking initialWorld]
  by (simp add: example_dispatches example_rankings)
     (simp add: initialWorld_def rankingNote_def januaryEntry_def)

text \<open>
  C8, as the code has it. When the dispatch to some ranked user fails, the computation
  fails: the awaited \<^verbatim>\<open>Promise.all\<close> rejects and nothing catches it. The dispatches
  to all ranked users have been started all the same, and the leaderboard written before
  stays.
\<close>

theorem compute_dispatch_failure:
  assumes "(u, n) \<in> set (dispatchesOf db tza dto)" and "\<not> createForUser u n"
  shows "fst (compute tza createForUser db dto w) = Inl DispatchRejected
     \<and> dispatched (snd (compute tza createForUser db dto w)) = dispatched w @ dispatchesOf db tza dto
     \<and> map fst (dispatchesOf db tza dto) = map re_userId (rankingsOf db tza dto)
     \<and> rankingEntries (snd (compute tza createForUser db dto w))
         = filter (\<lambda>e. re_period e \<noteq> dto_period dto) (rankingEntries w) @ entriesDataOf db tza dto"
proof -
  from assms(1) have ne: "entriesDataOf db tza dto \<noteq> []"
    using dispatchesOf_Nil [of db tza dto] by auto
  from assms have "\<not> list_all (\<lambda>(userId, n). createForUser userId n) (dispatchesOf db tza dto)"
    by (auto simp: list_all_iff)
  with ne have "fst (compute tza createForUser db dto w) = Inl DispatchRejected"
    by (simp add: compute_eq)
  moreover have "map fst (dispatchesOf db tza dto) = map re_userId (rankingsOf db tza dto)"
    by (rule nth_equalityI) (simp_all add: length_dispatchesOf dispatchesOf_nth)
  ultimately show ?thesis
    by (simp add: compute_dispatched compute_store)
qed

text \<open>The dispatch to \<open>b\<close> fails: the call fails, \<open>a\<close>, \<open>b\<close> and \<open>c\<close> were all notified.\<close>

theorem compute_dispatch_failure_witness:
  "fst (compute 0 (\<lambda>u n. u \<noteq> ''b'') rankingStore januaryRanking initialWorld) = Inl DispatchRejected
   \<and> map fst (dispatched (snd (compute 0 (\<lambda>u n. u \<noteq> ''b'') rankingStore januaryRanking initialWorld)))
       = [''a'', ''b'', ''c'']
   \<and> map re_userId (rankingEntries
        (snd (compute 0 (\<lambda>u n. u \<noteq> ''b'') rankingStore januaryRanking initialWorld)))
       = [''z'', ''a'', ''b'', ''c'']"
proof -
  have "(''b'', rankingNote RANKING_TOP3 2 7 3) \<in> set (dispatchesOf rankingStore 0 januaryRanking)"
    by (simp add: example_dispatches)
  from compute_dispatch_failure [OF this, of "\<lambda>u n. u \<noteq> ''b''" initialWorld]
  show ?thesis
    by (simp add: example_dispatches example_entries)
       (simp add: initialWorld_def januaryRanking_def januaryEntry_def)
qed

text \<open>
  The same run in full: no leaderboard is returned, although the table holds the new
  entries.
\<close>

theorem compute_dispatch_failure_counterexample:
  "compute 0 (\<lambda>u n. u \<noteq> ''b'') rankingStore januaryRanking initialWorld =
     (Inl DispatchRejected,
      \<lparr>rankingEntries =
         [\<lparr>re_period = ''2023-12'', re_userId = ''z'', re_score = 5, re_extra = None\<rparr>,
          januaryEntry ''a'' 10, januaryEntry ''b'' 7, januaryEntry ''c'' 7],
       dispatched =
         [(''a'', rankingNote RANKING_TOP3 1 10 3), (''b'', rankingNote RANKING_TOP3 2 7 3),
          (''c'', rankingNote RANKING_TOP3 3 7 3)]\<rparr>)"
  by code_simp

section \<open>Activity metrics\<close>

lemma set_insertBy: "set (insertBy cmp x xs) = insert x (set xs)"
  by (induction xs) auto

lemma set_sortBy: "set (sortBy cmp xs) = set xs"
  by (induction xs) (simp_all add: sortBy_def set_insertBy)

lemma sorted_insertBy:
  assumes "consistentComparator cmp" and "sorted_wrt (\<lambda>a b. cmp a b \<le> 0) xs"
  shows "sorted_wrt (\<lambda>a b. cmp a b \<le> 0) (insertBy cmp x xs)"
  using assms(2)
proof (induction xs)
  case Nil
  show ?case by simp
next
  case (Cons y ys)
  show ?case
  proof (cases "cmp x y \<le> 0")
    case True
    have "cmp x z \<le> 0" if "z \<in> set ys" for z
    proof -
      from Cons.prems that have "cmp y z \<le> 0" by simp
      with True assms(1) show ?thesis unfolding consistentComparator_def by blast
    qed
    with True Cons.prems show ?thesis by simp
  next
    case False
    then have "cmp y x \<le> 0"
      using assms(1) unfolding consistentComparator_def by blast
    with False Cons show ?thesis by (auto simp: set_insertBy)
  qed
qed

lemma sorted_sortBy:
  assumes "consistentComparator cmp"
  shows "sorted_wrt (\<lambda>a b. cmp a b \<le> 0) (sortBy cmp xs)"
  by (induction xs) (simp_all add: sortBy_def sorted_insertBy [OF assms])

lemma okBucket_upsert:
  assumes "\<forall>kb \<in> set m. okBucket (snd kb)"
  shows "\<forall>kb \<in> set (upsertBucket key m). okBucket (snd kb)"
  using assms by (auto simp: upsertBucket_def okBucket_def split: option.splits)

lemma okBucket_modify:
  assumes "\<forall>kb \<in> set m. okBucket (snd kb)" and "\<And>b. okBucket b \<Longrightarrow> okBucket (f b)"
  shows "\<forall>kb \<in> set (modifyBucket key f m). okBucket (snd kb)"
  using assms by (auto simp: modifyBucket_def)

lemma okBucket_goalStep:
  assumes "\<forall>kb \<in> set m. okBucket (snd kb)"
  shows "\<forall>kb \<in> set (goalStep p m c). okBucket (snd kb)"
  unfolding goalStep_def Let_def
  by (rule okBucket_modify [OF okBucket_upsert [OF assms]]) (simp add: okBucket_def)

lemma okBucket_streakStep:
  assumes "\<forall>kb \<in> set m. okBucket (snd kb)"
  shows "\<forall>kb \<in> set (streakStep p m c). okBucket (snd kb)"
  unfolding streakStep_def Let_def
  by (rule okBucket_modify [OF okBucket_upsert [OF assms]]) (simp add: okBucket_def)

lemma okBucket_goalLoop:
  "\<forall>kb \<in> set m. okBucket (snd kb) \<Longrightarrow> \<forall>kb \<in> set (foldl (goalStep p) m cs). okBucket (snd kb)"
proof (induction cs arbitrary: m)
  case Nil
  then show ?case by simp
next
  case (Cons c cs)
  from Cons.prems have "\<forall>kb \<in> set (goalStep p m c). okBucket (snd kb)"
    by (rule okBucket_goalStep)
  then have "\<forall>kb \<in> set (foldl (goalStep p) (goalStep p m c) cs). okBucket (snd kb)"
    by (rule Cons.IH)
  then show ?case by simp
qed

lemma okBucket_streakLoop:
  "\<forall>kb \<in> set m. okBucket (snd kb) \<Longrightarrow> \<forall>kb \<in> set (foldl (streakStep p) m cs). okBucket (snd kb)"
proof (induction cs arbitrary: m)
  case Nil
  then show ?case by simp
next
  case (Cons c cs)
  from Cons.prems have "\<forall>kb \<in> set (streakStep p m c). okBucket (snd kb)"
    by (rule okBucket_streakStep)
  then have "\<forall>kb \<in> set (foldl (streakStep p) (streakStep p m c) cs). okBucket (snd kb)"
    by (rule Cons.IH)
  then show ?case by simp
qed

text \<open>
  C9. Whenever the range resolves, \<open>activityMetrics\<close> returns, every bucket of the result
  has \<open>total = goalCheckins + streakCheckins\<close> with all three counters non-negative, and
  the buckets are sorted ascending by key in the order of the comparator (for a
  comparator that compares any two keys, transitively).
\<close>

theorem activityMetrics_buckets:
  assumes "consistentComparator localeCompare"
    and "resolveRange parse now q = Inr (from, to)"
  shows "\<exists>r. activityMetrics parse now localeCompare db userId q = Inr r
     \<and> (\<forall>b \<in> set (am_buckets r).
           b_total b = b_goalCheckins b + b_streakCheckins b
           \<and> 0 \<le> b_goalCheckins b \<and> 0 \<le> b_streakCheckins b \<and> 0 \<le> b_total b)
     \<and> sorted_wrt (\<lambda>a b. localeCompare (b_key a) (b_key b) \<le> 0) (am_buckets r)"
proof -
  define p where "p = (case q_period q of None \<Rightarrow> PDay | Some v \<Rightarrow> v)"
  define goalRows where "goalRows = filter (\<lambda>c. gc_userId c = userId \<and> from \<le> gc_date c \<and> gc_date c \<le> to) (goalCheckins db)"
  define streakRows where "streakRows = filter (\<lambda>c. sc_userId c = userId \<and> from \<le> sc_date c \<and> sc_date c \<le> to \<and> sc_done c) (streakCheckins db)"
  define buckets where "buckets = foldl (streakStep p) (foldl (goalStep p) [] goalRows) streakRows"
  define items where "items = sortBy (\<lambda>a b. localeCompare (b_key a) (b_key b)) (map snd buckets)"
  have r: "activityMetrics parse now localeCompare db userId q
           = Inr \<lparr>am_period = p, am_from = from, am_to = to, am_buckets = items\<rparr>"
    using assms(2)
    by (simp add: activityMetrics_def Let_def p_def goalRows_def streakRows_def buckets_def items_def)
  have "\<forall>kb \<in> set buckets. okBucket (snd kb)"
    unfolding buckets_def by (intro okBucket_streakLoop okBucket_goalLoop) simp
  then have ok: "\<forall>b \<in> set items. okBucket b"
    by (auto simp: items_def set_sortBy)
  have cmp: "consistentComparator (\<lambda>a b. localeCompare (b_key a) (b_key b))"
    using assms(1) unfolding consistentComparator_def by blast
  have "sorted_wrt (\<lambda>a b. localeCompare (b_key a) (b_key b) \<le> 0) items"
    unfolding items_def by (rule sorted_sortBy [OF cmp])
  with ok r show ?thesis
    by (simp add: okBucket_def)
qed

lemma consistent_codeUnitCompare: "consistentComparator codeUnitCompare"
  by (auto simp: consistentComparator_def codeUnitCompare_def)

lemma example_metrics:
  "activityMetrics exampleParse exampleNow codeUnitCompare metricsStore ''u1'' january =
     Inr \<lparr>am_period = PDay, am_from = 1704067200000, am_to = 1706659200000,
          am_buckets =
            [\<lparr>b_key = ''2024-01-01'', b_goalCheckins = 0, b_streakCheckins = 0, b_total = 0\<rparr>,
             \<lparr>b_key = ''2024-01-02'', b_goalCheckins = 0, b_streakCheckins = 1, b_total = 1\<rparr>,
             \<lparr>b_key = ''2024-01-03'', b_goalCheckins = 2, b_streakCheckins = 1, b_total = 3\<rparr>]\<rparr>"
  by code_simp

text \<open>Three days of January, inserted as 03, 01, 02 and returned in order.\<close>

theorem activityMetrics_buckets_witness:
  "activityMetrics exampleParse exampleNow codeUnitCompare metricsStore ''u1'' january =
     Inr \<lparr>am_period = PDay, am_from = 1704067200000, am_to = 1706659200000,
          am_buckets =
            [\<lparr>b_key = ''2024-01-01'', b_goalCheckins = 0, b_streakCheckins = 0, b_total = 0\<rparr>,
             \<lparr>b_key = ''2024-01-02'', b_goalCheckins = 0, b_streakCheckins = 1, b_total = 1\<rparr>,
             \<lparr>b_key = ''2024-01-03'', b_goalCheckins = 2, b_streakCheckins = 1, b_total = 3\<rparr>]\<rparr>
   \<and> sorted_wrt (\<lambda>a b. codeUnitCompare (b_key a) (b_key b) \<le> 0)
        [\<lparr>b_key = ''2024-01-01'', b_goalCheckins = 0, b_streakCheckins = 0, b_total = 0\<rparr>,
         \<lparr>b_key = ''2024-01-02'', b_goalCheckins = 0, b_streakCheckins = 1, b_total = 1\<rparr>,
         \<lparr>b_key = ''2024-01-03'', b_goalCheckins = 2, b_streakCheckins = 1, b_total = 3\<rparr>]"
  using activityMetrics_buckets [OF consistent_codeUnitCompare example_range, of metricsStore "''u1''"]
  by (simp add: example_metrics)

lemma modifyBucket_same:
  assumes "\<forall>kb \<in> set m. f (snd kb) = snd kb"
  shows "modifyBucket key f m = m"
  unfolding modifyBucket_def using assms by (intro map_idI) auto

lemma upsertBucket_total:
  assumes "\<forall>kb \<in> set m. b_total (snd kb) = b_goalCheckins (snd kb) + b_streakCheckins (snd kb)"
  shows "\<forall>kb \<in> set (upsertBucket key m).
           b_total (snd kb) = b_goalCheckins (snd kb) + b_streakCheckins (snd kb)"
  using assms by (auto simp: upsertBucket_def split: option.splits)

lemma example_idle:
  "activityMetrics exampleParse exampleNow codeUnitCompare idleStore ''u1'' january =
     Inr \<lparr>am_period = PDay, am_from = 1704067200000, am_to = 1706659200000,
          am_buckets =
            [\<lparr>b_key = ''2024-01-01'', b_goalCheckins = 0, b_streakCheckins = 0, b_total = 0\<rparr>]\<rparr>"
  by code_simp

text \<open>
  C10. A goal check-in that is not active leaves every counter as it is and adds an empty
  bucket when its key is new: on buckets whose totals are consistent, its step of the
  loop is \<open>upsertBucket\<close> alone. A store that holds nothing but one inactive check-in
  yields one bucket with all three counters 0.
\<close>

theorem inactive_checkin_creates_bucket:
  "(\<not> isActive c
    \<and> (\<forall>kb \<in> set m. b_total (snd kb) = b_goalCheckins (snd kb) + b_streakCheckins (snd kb))
    \<longrightarrow> goalStep p m c = upsertBucket (bucketKey (normalizeDayOf (gc_date c)) p) m)
   \<and> goalCheckins idleStore
       = [\<lparr>gc_goalId = ''g1'', gc_userId = ''u1'', gc_date = 1704067200000, gc_done = False,
            gc_value = None\<rparr>]
   \<and> activityMetrics exampleParse exampleNow codeUnitCompare idleStore ''u1'' january =
       Inr \<lparr>am_period = PDay, am_from = 1704067200000, am_to = 1706659200000,
            am_buckets =
              [\<lparr>b_key = ''2024-01-01'', b_goalCheckins = 0, b_streakCheckins = 0, b_total = 0\<rparr>]\<rparr>"
proof (intro conjI impI)
  assume a: "\<not> isActive c
    \<and> (\<forall>kb \<in> set m. b_total (snd kb) = b_goalCheckins (snd kb) + b_streakCheckins (snd kb))"
  define key where "key = bucketKey (normalizeDayOf (gc_date c)) p"
  from a have inactive: "\<not> (gc_done c \<or> valueOr0 c > 0)"
    by (simp add: isActive_def)
  from a have "\<forall>kb \<in> set (upsertBucket key m).
           b_total (snd kb) = b_goalCheckins (snd kb) + b_streakCheckins (snd kb)"
    by (intro upsertBucket_total) simp
  then have "modifyBucket key
               (\<lambda>b. let g = b_goalCheckins b + (if gc_done c \<or> valueOr0 c > 0 then 1 else 0)
                    in b\<lparr>b_goalCheckins := g, b_total := g + b_streakCheckins b\<rparr>)
               (upsertBucket key m) = upsertBucket key m"
    using inactive by (intro modifyBucket_same) (simp add: Let_def)
  then show "goalStep p m c = upsertBucket (bucketKey (normalizeDayOf (gc_date c)) p) m"
    by (simp add: goalStep_def Let_def key_def)
next
  show "goalCheckins idleStore
       = [\<lparr>gc_goalId = ''g1'', gc_userId = ''u1'', gc_date = 1704067200000, gc_done = False,
            gc_value = None\<rparr>]"
    by (simp add: idleStore_def)
  show "activityMetrics exampleParse exampleNow codeUnitCompare idleStore ''u1'' january =
       Inr \<lparr>am_period = PDay, am_from = 1704067200000, am_to = 1706659200000,
            am_buckets =
              [\<lparr>b_key = ''2024-01-01'', b_goalCheckins = 0, b_streakCheckins = 0, b_total = 0\<rparr>]\<rparr>"
    by (rule example_idle)
qed

lemma example_day_key: "bucketKey (normalizeDayOf 1704067200000) PDay = ''2024-01-01''"
  by code_simp

text \<open>The step of an inactive check-in from no buckets at all.\<close>

theorem inactive_checkin_creates_bucket_witness:
  "goalStep PDay []
     \<lparr>gc_goalId = ''g1'', gc_userId = ''u1'', gc_date = 1704067200000, gc_done = False,
      gc_value = None\<rparr>
   = [(''2024-01-01'',
       \<lparr>b_key = ''2024-01-01'', b_goalCheckins = 0, b_streakCheckins = 0, b_total = 0\<rparr>)]"
  using inactive_checkin_creates_bucket [of
      "\<lparr>gc_goalId = ''g1'', gc_userId = ''u1'', gc_date = 1704067200000, gc_done = False,
        gc_value = None\<rparr>" "[]" PDay]
  by (simp add: isActive_def valueOr0_def upsertBucket_def example_day_key)

end
